theory Spec2Isabelle
  imports Main "HOL-Library.AList" "HOL-Library.Multiset"
begin

section \<open>Strings of the JavaScript runtime\<close>

text \<open>
  A JavaScript string is a sequence of code units. The model uses \<^typ>\<open>string\<close>, whose
  characters are the code units below 256 (ASCII and Latin-1); every delimiter the
  regular expressions of the repository look for is ASCII. Numbers are the integers
  (\<^typ>\<open>int\<close>): the catalogue only holds integral numbers (a priority read by
  \<open>parseInt\<close>, a tier 1..3), and the model covers them where a double represents them
  exactly. Console output is not modelled.
\<close>

text \<open>The class \<open>\s\<close> of a regular expression, also what \<open>trim\<close> removes: TAB, LF, VT, FF,
  CR, SPACE and NBSP are its members below 256.\<close>

definition isSpace :: "char \<Rightarrow> bool" where
  "isSpace c \<longleftrightarrow>
     c \<in> set [CHR 0x09, CHR 0x0A, CHR 0x0B, CHR 0x0C, CHR 0x0D, CHR 0x20, CHR 0xA0]"

definition trimStart :: "string \<Rightarrow> string" where
  "trimStart s = dropWhile isSpace s"

definition trim :: "string \<Rightarrow> string" where
  "trim s = rev (dropWhile isSpace (rev (dropWhile isSpace s)))"

text \<open>\<open>String.prototype.toLowerCase\<close> on the code units below 256: A-Z and the Latin-1
  capitals (0xC0-0xDE without the multiplication sign 0xD7) move up by 32.\<close>

definition upperLetters :: string where
  "upperLetters = ''ABCDEFGHIJKLMNOPQRSTUVWXYZ''"

definition lowerLetters :: string where
  "lowerLetters = ''abcdefghijklmnopqrstuvwxyz''"

definition latinCapitals :: string where
  "latinCapitals =
     [CHR 0xC0, CHR 0xC1, CHR 0xC2, CHR 0xC3, CHR 0xC4, CHR 0xC5, CHR 0xC6, CHR 0xC7, CHR 0xC8, CHR 0xC9, CHR 0xCA, CHR 0xCB, CHR 0xCC, CHR 0xCD, CHR 0xCE, CHR 0xCF,
      CHR 0xD0, CHR 0xD1, CHR 0xD2, CHR 0xD3, CHR 0xD4, CHR 0xD5, CHR 0xD6, CHR 0xD8, CHR 0xD9, CHR 0xDA, CHR 0xDB, CHR 0xDC, CHR 0xDD, CHR 0xDE]"

definition latinSmalls :: string where
  "latinSmalls =
     [CHR 0xE0, CHR 0xE1, CHR 0xE2, CHR 0xE3, CHR 0xE4, CHR 0xE5, CHR 0xE6, CHR 0xE7, CHR 0xE8, CHR 0xE9, CHR 0xEA, CHR 0xEB, CHR 0xEC, CHR 0xED, CHR 0xEE, CHR 0xEF,
      CHR 0xF0, CHR 0xF1, CHR 0xF2, CHR 0xF3, CHR 0xF4, CHR 0xF5, CHR 0xF6, CHR 0xF8, CHR 0xF9, CHR 0xFA, CHR 0xFB, CHR 0xFC, CHR 0xFD, CHR 0xFE]"

definition lowerChar :: "char \<Rightarrow> char" where
  "lowerChar c =
     (case map_of (zip (upperLetters @ latinCapitals) (lowerLetters @ latinSmalls)) c of
        Some l \<Rightarrow> l
      | None \<Rightarrow> c)"

definition toLowerCase :: "string \<Rightarrow> string" where
  "toLowerCase s = map lowerChar s"

text \<open>The canonicalisation of the \<open>i\<close> flag. Every literal of the patterns below is ASCII,
  and a code unit from 128 on never canonicalises to an ASCII one, so folding a-z to A-Z
  decides every comparison against a pattern character.\<close>

definition canon :: "char \<Rightarrow> char" where
  "canon c = (case map_of (zip lowerLetters upperLetters) c of Some u \<Rightarrow> u | None \<Rightarrow> c)"

text \<open>A literal pattern at the head of the input: the rest of the input after it.\<close>

fun startsWith :: "string \<Rightarrow> string \<Rightarrow> string option" where
  "startsWith [] s = Some s"
| "startsWith (p # ps) [] = None"
| "startsWith (p # ps) (c # cs) = (if p = c then startsWith ps cs else None)"

fun startsWithCI :: "string \<Rightarrow> string \<Rightarrow> string option" where
  "startsWithCI [] s = Some s"
| "startsWithCI (p # ps) [] = None"
| "startsWithCI (p # ps) (c # cs) = (if canon p = canon c then startsWithCI ps cs else None)"

text \<open>The lazy \<open>[\s\S]*?\<close> followed by a literal stops at the first occurrence of the
  literal: the text before it and the text after it.\<close>

fun splitLit :: "string \<Rightarrow> string \<Rightarrow> (string \<times> string) option" where
  "splitLit lit [] = (if lit = [] then Some ([], []) else None)"
| "splitLit lit (c # cs) =
     (case startsWith lit (c # cs) of
        Some r \<Rightarrow> Some ([], r)
      | None \<Rightarrow> map_option (\<lambda>(b, a). (c # b, a)) (splitLit lit cs))"

fun splitLitCI :: "string \<Rightarrow> string \<Rightarrow> (string \<times> string) option" where
  "splitLitCI lit [] = (if lit = [] then Some ([], []) else None)"
| "splitLitCI lit (c # cs) =
     (case startsWithCI lit (c # cs) of
        Some r \<Rightarrow> Some ([], r)
      | None \<Rightarrow> map_option (\<lambda>(b, a). (c # b, a)) (splitLitCI lit cs))"

lemma startsWith_length: "startsWith p s = Some r \<Longrightarrow> length s = length p + length r"
  by (induction p s rule: startsWith.induct) (auto split: if_splits)

lemma startsWithCI_length: "startsWithCI p s = Some r \<Longrightarrow> length s = length p + length r"
  by (induction p s rule: startsWithCI.induct) (auto split: if_splits)

lemma splitLit_length:
  "splitLit lit s = Some (b, a) \<Longrightarrow> length s = length b + length lit + length a"
  by (induction lit s arbitrary: b a rule: splitLit.induct)
     (auto split: if_splits option.splits dest: startsWith_length)

lemma splitLitCI_length:
  "splitLitCI lit s = Some (b, a) \<Longrightarrow> length s = length b + length lit + length a"
  by (induction lit s arbitrary: b a rule: splitLitCI.induct)
     (auto split: if_splits option.splits dest: startsWithCI_length)

text \<open>\<open>s.replace(/lit/g, rep)\<close> for a literal pattern: every occurrence, left to right,
  the search resuming behind the occurrence replaced.\<close>

function replaceAll :: "string \<Rightarrow> string \<Rightarrow> string \<Rightarrow> string" where
  "replaceAll lit rep [] = []"
| "replaceAll lit rep (c # cs) =
     (case startsWith lit (c # cs) of
        Some r \<Rightarrow> if lit = [] then c # cs else rep @ replaceAll lit rep r
      | None \<Rightarrow> c # replaceAll lit rep cs)"
  by pat_completeness auto
termination
  by (relation "measure (\<lambda>(lit, rep, s). length s)")
     (auto dest!: startsWith_length simp: neq_Nil_conv)


section \<open>Attribute/Element Extractor\<close>

definition dq :: char where
  "dq = CHR 0x22"

text \<open>\<open>extractAttr\<close>: the first match of \<open>name\s*=\s*"([^"]*)"\<close> (flag \<open>i\<close>). At one start
  position the match is deterministic: \<open>\s*\<close> cannot give back a character that \<open>=\<close> or
  the quote would accept, and \<open>[^"]*\<close> ends at the first quote.\<close>

definition attrAt :: "string \<Rightarrow> string \<Rightarrow> string option" where
  "attrAt name s =
     (case startsWithCI name s of
        None \<Rightarrow> None
      | Some r1 \<Rightarrow>
          (case dropWhile isSpace r1 of
             [] \<Rightarrow> None
           | e # r2 \<Rightarrow>
               if e \<noteq> CHR ''='' then None
               else (case dropWhile isSpace r2 of
                       [] \<Rightarrow> None
                     | q # r3 \<Rightarrow>
                         if q \<noteq> dq then None
                         else (case dropWhile (\<lambda>c. c \<noteq> dq) r3 of
                                 [] \<Rightarrow> None
                               | _ # _ \<Rightarrow> Some (takeWhile (\<lambda>c. c \<noteq> dq) r3)))))"

fun attrSearch :: "string \<Rightarrow> string \<Rightarrow> string option" where
  "attrSearch name [] = attrAt name []"
| "attrSearch name (c # cs) =
     (case attrAt name (c # cs) of
        Some v \<Rightarrow> Some v
      | None \<Rightarrow> attrSearch name cs)"

definition extractAttr :: "string \<Rightarrow> string \<Rightarrow> string" where
  "extractAttr attrStr name = (case attrSearch name attrStr of Some v \<Rightarrow> v | None \<Rightarrow> [])"

definition stripCdata :: "string \<Rightarrow> string" where
  "stripCdata text = replaceAll '']]>'' [] (replaceAll ''<![CDATA['' [] text)"

text \<open>\<open>extractFirstElement\<close>: the first match of \<open><tag[^>]*>([\s\S]*?)</tag>\<close> (flag \<open>i\<close>).
  \<open>[^>]*\<close> runs to the first \<open>>\<close>, the lazy group to the first closing tag; a start
  position without either fails and the search moves on.\<close>

definition elementAt :: "string \<Rightarrow> string \<Rightarrow> (string \<times> string) option" where
  "elementAt tag s =
     (case startsWithCI (''<'' @ tag) s of
        None \<Rightarrow> None
      | Some r1 \<Rightarrow>
          (case dropWhile (\<lambda>c. c \<noteq> CHR ''>'') r1 of
             [] \<Rightarrow> None
           | _ # r2 \<Rightarrow> splitLitCI (''</'' @ tag @ ''>'') r2))"

fun elementSearch :: "string \<Rightarrow> string \<Rightarrow> string option" where
  "elementSearch tag [] = map_option fst (elementAt tag [])"
| "elementSearch tag (c # cs) =
     (case elementAt tag (c # cs) of
        Some (inner, rest) \<Rightarrow> Some inner
      | None \<Rightarrow> elementSearch tag cs)"

definition extractFirstElement :: "string \<Rightarrow> string \<Rightarrow> string" where
  "extractFirstElement xml tag =
     (case elementSearch tag xml of None \<Rightarrow> [] | Some inner \<Rightarrow> trim (stripCdata inner))"

text \<open>\<open>extractExamples\<close>: the \<open>exec\<close> loop of \<open><example>([\s\S]*?)</example>\<close> (flags
  \<open>gi\<close>); each search starts behind the previous match.\<close>

definition betweenAt :: "string \<Rightarrow> string \<Rightarrow> string \<Rightarrow> (string \<times> string) option" where
  "betweenAt opn cls s =
     (case startsWithCI opn s of
        None \<Rightarrow> None
      | Some r \<Rightarrow> splitLitCI cls r)"

definition exampleAt :: "string \<Rightarrow> (string \<times> string) option" where
  "exampleAt s = betweenAt ''<example>'' ''</example>'' s"

lemma exampleAt_length: "exampleAt s = Some (inner, rest) \<Longrightarrow> length rest < length s"
  by (auto simp: exampleAt_def betweenAt_def split: option.splits
      dest!: startsWithCI_length splitLitCI_length)

function extractExamples :: "string \<Rightarrow> string list" where
  "extractExamples [] = []"
| "extractExamples (c # cs) =
     (case exampleAt (c # cs) of
        Some (inner, rest) \<Rightarrow>
          (let ex = trim (stripCdata inner)
           in (if ex \<noteq> [] then [ex] else []) @ extractExamples rest)
      | None \<Rightarrow> extractExamples cs)"
  by pat_completeness auto
termination
  by (relation "measure length") (auto dest: exampleAt_length)


text \<open>\<open>extractProperties\<close>: the \<open>exec\<close> loop of
  \<open><property\s+name="([^"]*)"[^>]*(?:\/>|>([\s\S]*?)<\/property>)\<close> (flags \<open>gi\<close>).
  The greedy \<open>[^>]*\<close> first runs to the first \<open>>\<close>; there only the second alternative
  can start, and it succeeds when a closing \<open></property>\<close> follows anywhere behind. Only
  when none follows does the engine give one character back, and the first alternative
  matches if that character is the slash of \<open>/>\<close>. No other split of the input matches.
  The result is the name, the second group if it took part, the matched text and the
  rest of the input.\<close>

definition propertyAt :: "string \<Rightarrow> (string \<times> string option \<times> string \<times> string) option" where
  "propertyAt s =
     (case startsWithCI ''<property'' s of
        None \<Rightarrow> None
      | Some r1 \<Rightarrow>
          (case r1 of
             [] \<Rightarrow> None
           | w # _ \<Rightarrow>
               if \<not> isSpace w then None
               else (case startsWithCI (''name='' @ [dq]) (dropWhile isSpace r1) of
                       None \<Rightarrow> None
                     | Some r3 \<Rightarrow>
                         (case dropWhile (\<lambda>c. c \<noteq> dq) r3 of
                            [] \<Rightarrow> None
                          | _ # r5 \<Rightarrow>
                              (case dropWhile (\<lambda>c. c \<noteq> CHR ''>'') r5 of
                                 [] \<Rightarrow> None
                               | _ # r7 \<Rightarrow>
                                   (case splitLitCI ''</property>'' r7 of
                                      Some (inner, rest) \<Rightarrow>
                                        Some (takeWhile (\<lambda>c. c \<noteq> dq) r3, Some inner,
                                              take (length s - length rest) s, rest)
                                    | None \<Rightarrow>
                                        (let pre = takeWhile (\<lambda>c. c \<noteq> CHR ''>'') r5
                                         in if pre \<noteq> [] \<and> last pre = CHR ''/''
                                            then Some (takeWhile (\<lambda>c. c \<noteq> dq) r3, None,
                                                       take (length s - length r7) s, r7)
                                            else None)))))))"

text \<open>The first match of a literal followed by \<open>([^"]*)"\<close>, for \<open>/value="([^"]*)"/\<close> and
  \<open>/description="([^"]*)"/\<close> (no flag).\<close>

definition quotedAt :: "string \<Rightarrow> string \<Rightarrow> string option" where
  "quotedAt lit s =
     (case startsWith lit s of
        None \<Rightarrow> None
      | Some r \<Rightarrow>
          (case dropWhile (\<lambda>c. c \<noteq> dq) r of
             [] \<Rightarrow> None
           | _ # _ \<Rightarrow> Some (takeWhile (\<lambda>c. c \<noteq> dq) r)))"

fun quotedSearch :: "string \<Rightarrow> string \<Rightarrow> string option" where
  "quotedSearch lit [] = quotedAt lit []"
| "quotedSearch lit (c # cs) =
     (case quotedAt lit (c # cs) of
        Some v \<Rightarrow> Some v
      | None \<Rightarrow> quotedSearch lit cs)"

text \<open>The first match of \<open>/<value>([\s\S]*?)<\/value>/i\<close>.\<close>

fun valueSearch :: "string \<Rightarrow> string option" where
  "valueSearch [] = None"
| "valueSearch (c # cs) =
     (case betweenAt ''<value>'' ''</value>'' (c # cs) of
        Some (inner, rest) \<Rightarrow> Some inner
      | None \<Rightarrow> valueSearch cs)"

record property =
  prop_name :: string
  prop_defaultValue :: string
  prop_description :: string

definition propertyOf :: "string \<Rightarrow> string option \<Rightarrow> string \<Rightarrow> property" where
  "propertyOf nm group2 m0 =
     \<lparr> prop_name = nm,
       prop_defaultValue =
         (case quotedSearch (''value='' @ [dq]) m0 of
            Some v \<Rightarrow> v
          | None \<Rightarrow>
              (case group2 of
                 None \<Rightarrow> []
               | Some inner \<Rightarrow>
                   if inner = [] then []
                   else (case valueSearch inner of
                           Some v \<Rightarrow> trim (stripCdata v)
                         | None \<Rightarrow> []))),
       prop_description =
         (case quotedSearch (''description='' @ [dq]) m0 of Some v \<Rightarrow> v | None \<Rightarrow> []) \<rparr>"

lemma dropWhile_Cons_length: "dropWhile P xs = y # ys \<Longrightarrow> length ys < length xs"
  using length_dropWhile_le [of P xs] by simp

lemma propertyAt_length:
  assumes "propertyAt s = Some (nm, g, m0, rest)"
  shows "length rest < length s"
proof -
  from assms obtain r1 r3 q r5 g' r7
    where r1: "startsWithCI ''<property'' s = Some r1"
      and r3: "startsWithCI (''name='' @ [dq]) (dropWhile isSpace r1) = Some r3"
      and r5: "dropWhile (\<lambda>c. c \<noteq> dq) r3 = q # r5"
      and r7: "dropWhile (\<lambda>c. c \<noteq> CHR ''>'') r5 = g' # r7"
      and rest: "length rest \<le> length r7"
    unfolding propertyAt_def
    by (auto split: option.splits list.splits if_splits simp: Let_def
        dest!: splitLitCI_length)
  have "length r7 < length r5" using r7 by (rule dropWhile_Cons_length)
  also have "length r5 < length r3" using r5 by (rule dropWhile_Cons_length)
  also have "length r3 \<le> length (dropWhile isSpace r1)"
    using startsWithCI_length [OF r3] by simp
  also have "\<dots> \<le> length r1" by (rule length_dropWhile_le)
  also have "\<dots> \<le> length s" using startsWithCI_length [OF r1] by simp
  finally show ?thesis using rest by simp
qed

function extractProperties :: "string \<Rightarrow> property list" where
  "extractProperties [] = []"
| "extractProperties (c # cs) =
     (case propertyAt (c # cs) of
        Some (nm, group2, m0, rest) \<Rightarrow>
          (if nm = ''xpath'' \<or> nm = ''version'' then [] else [propertyOf nm group2 m0])
          @ extractProperties rest
      | None \<Rightarrow> extractProperties cs)"
  by pat_completeness auto
termination
  by (relation "measure length") (auto dest: propertyAt_length)


section \<open>Rule Parser\<close>

text \<open>\<open>parseInt(string)\<close> without a radix: leading white space is skipped, a sign is read,
  \<open>0x\<close> or \<open>0X\<close> selects radix 16, and the longest run of digits of the radix is the
  value. \<open>None\<close> is \<open>NaN\<close>: there is no digit to read.\<close>

definition digitOf :: "char \<Rightarrow> nat option" where
  "digitOf c =
     map_of (zip ''0123456789'' [0, 1, 2, 3, 4, 5, 6, 7, 8, 9]
             @ zip ''abcdef'' [10, 11, 12, 13, 14, 15]
             @ zip ''ABCDEF'' [10, 11, 12, 13, 14, 15]) c"

definition isDigitIn :: "nat \<Rightarrow> char \<Rightarrow> bool" where
  "isDigitIn radix c = (case digitOf c of None \<Rightarrow> False | Some d \<Rightarrow> d < radix)"

definition digitsValue :: "nat \<Rightarrow> string \<Rightarrow> nat" where
  "digitsValue radix z = foldl (\<lambda>a c. a * radix + (case digitOf c of Some d \<Rightarrow> d | None \<Rightarrow> 0)) 0 z"

definition parseInt :: "string \<Rightarrow> int option" where
  "parseInt str =
     (let s0 = trimStart str;
          neg = (s0 \<noteq> [] \<and> hd s0 = CHR ''-'');
          s1 = (if s0 \<noteq> [] \<and> (hd s0 = CHR ''+'' \<or> hd s0 = CHR ''-'') then tl s0 else s0);
          hex = (case s1 of
                   a # b # _ \<Rightarrow> a = CHR ''0'' \<and> (b = CHR ''x'' \<or> b = CHR ''X'')
                 | _ \<Rightarrow> False);
          radix = (if hex then 16 else 10);
          s2 = (if hex then drop 2 s1 else s1);
          z = takeWhile (isDigitIn radix) s2
      in if z = [] then None
         else Some ((if neg then - 1 else 1) * int (digitsValue radix z)))"

text \<open>\<open>parseInt(priorityStr) || 3\<close>: \<open>NaN\<close> and 0 are the falsy numbers.\<close>

definition priorityOf :: "string \<Rightarrow> int" where
  "priorityOf priorityStr =
     (case parseInt priorityStr of
        None \<Rightarrow> 3
      | Some n \<Rightarrow> if n = 0 then 3 else n)"

text \<open>\<open>/\bref\s*=/.test(attrs)\<close>: \<open>ref\<close>, white space and \<open>=\<close> at a position that is the
  start of the text or follows a character outside \<open>[A-Za-z0-9_]\<close>.\<close>

definition isWordChar :: "char \<Rightarrow> bool" where
  "isWordChar c \<longleftrightarrow> c \<in> set (lowerLetters @ upperLetters @ ''0123456789_'')"

definition refAt :: "string \<Rightarrow> bool" where
  "refAt s =
     (case startsWith ''ref'' s of
        None \<Rightarrow> False
      | Some r \<Rightarrow> (case dropWhile isSpace r of [] \<Rightarrow> False | e # _ \<Rightarrow> e = CHR ''=''))"

fun hasRefFrom :: "bool \<Rightarrow> string \<Rightarrow> bool" where
  "hasRefFrom prevWord [] = False"
| "hasRefFrom prevWord (c # cs) =
     ((\<not> prevWord \<and> refAt (c # cs)) \<or> hasRefFrom (isWordChar c) cs)"

definition hasRef :: "string \<Rightarrow> bool" where
  "hasRef attrs = hasRefFrom False attrs"

text \<open>The first match of \<open>/<ruleset\s+name="([^"]*)"/\<close>.\<close>

definition rulesetAt :: "string \<Rightarrow> string option" where
  "rulesetAt s =
     (case startsWith ''<ruleset'' s of
        None \<Rightarrow> None
      | Some r1 \<Rightarrow>
          (case r1 of
             [] \<Rightarrow> None
           | w # _ \<Rightarrow>
               if \<not> isSpace w then None
               else quotedAt (''name='' @ [dq]) (dropWhile isSpace r1)))"

fun rulesetSearch :: "string \<Rightarrow> string option" where
  "rulesetSearch [] = None"
| "rulesetSearch (c # cs) =
     (case rulesetAt (c # cs) of
        Some v \<Rightarrow> Some v
      | None \<Rightarrow> rulesetSearch cs)"

text \<open>One match of \<open>/<rule\s+([^>]*?)>([\s\S]*?)<\/rule>/g\<close>: the attribute text runs from
  behind the white space to the first \<open>>\<close>, the body to the first \<open></rule>\<close>. Giving
  white space back to the lazy group cannot move the first \<open>>\<close>, so a start position
  matches this way or not at all.\<close>

definition ruleAt :: "string \<Rightarrow> ((string \<times> string) \<times> string) option" where
  "ruleAt s =
     (case startsWith ''<rule'' s of
        None \<Rightarrow> None
      | Some r1 \<Rightarrow>
          (case r1 of
             [] \<Rightarrow> None
           | w # _ \<Rightarrow>
               if \<not> isSpace w then None
               else (case dropWhile (\<lambda>c. c \<noteq> CHR ''>'') (dropWhile isSpace r1) of
                       [] \<Rightarrow> None
                     | _ # r3 \<Rightarrow>
                         (case splitLit ''</rule>'' r3 of
                            None \<Rightarrow> None
                          | Some (body, rest) \<Rightarrow>
                              Some ((takeWhile (\<lambda>c. c \<noteq> CHR ''>'') (dropWhile isSpace r1), body),
                                    rest)))))"

lemma ruleAt_length:
  assumes "ruleAt s = Some (m, rest)"
  shows "length rest < length s"
proof -
  from assms obtain r1 g r3
    where r1: "startsWith ''<rule'' s = Some r1"
      and r3: "dropWhile (\<lambda>c. c \<noteq> CHR ''>'') (dropWhile isSpace r1) = g # r3"
      and rest: "length rest \<le> length r3"
    unfolding ruleAt_def
    by (auto split: option.splits list.splits if_splits dest!: splitLit_length)
  have "length r3 < length (dropWhile isSpace r1)"
    using r3 by (rule dropWhile_Cons_length)
  also have "\<dots> \<le> length r1" by (rule length_dropWhile_le)
  also have "\<dots> \<le> length s" using startsWith_length [OF r1] by simp
  finally show ?thesis using rest by simp
qed

text \<open>The matches of the \<open>exec\<close> loop, in document order.\<close>

function ruleBlocks :: "string \<Rightarrow> (string \<times> string) list" where
  "ruleBlocks [] = []"
| "ruleBlocks (c # cs) =
     (case ruleAt (c # cs) of
        Some (m, rest) \<Rightarrow> m # ruleBlocks rest
      | None \<Rightarrow> ruleBlocks cs)"
  by pat_completeness auto
termination
  by (relation "measure length") (auto dest: ruleAt_length)

record rule =
  name :: string
  category :: string
  categoryName :: string
  since :: string
  message :: string
  ruleClass :: string
  externalInfoUrl :: string
  description :: string
  priority :: int
  examples :: "string list"
  properties :: "property list"
  maxLangVersion :: string
  minLangVersion :: string

text \<open>The body of the loop for one match: \<open>None\<close> is \<open>continue\<close>. The record holds the
  values of the local variables; which of them become fields of the emitted object is
  decided by \<open>ruleObject\<close> below.\<close>

definition ruleOfBlock :: "string \<Rightarrow> string \<Rightarrow> string \<times> string \<Rightarrow> rule option" where
  "ruleOfBlock cat rulesetName m =
     (case m of (attrs, body) \<Rightarrow>
        if hasRef attrs then None
        else if extractAttr attrs ''name'' = [] then None
        else Some
          \<lparr> name = extractAttr attrs ''name'',
            category = cat,
            categoryName = rulesetName,
            since = extractAttr attrs ''since'',
            message = extractAttr attrs ''message'',
            ruleClass = extractAttr attrs ''class'',
            externalInfoUrl =
              replaceAll ''${pmd.website.baseurl}'' ''https://docs.pmd-code.org/latest''
                (extractAttr attrs ''externalInfoUrl''),
            description = extractFirstElement body ''description'',
            priority = priorityOf (extractFirstElement body ''priority''),
            examples = extractExamples body,
            properties = extractProperties body,
            maxLangVersion = extractAttr attrs ''maximumLanguageVersion'',
            minLangVersion = extractAttr attrs ''minimumLanguageVersion'' \<rparr>)"

text \<open>\<open>parseXmlFile\<close>, from the text of the file on.\<close>

definition parseXmlFile :: "string \<Rightarrow> string \<Rightarrow> rule list" where
  "parseXmlFile xml cat =
     List.map_filter
       (ruleOfBlock cat (case rulesetSearch xml of Some v \<Rightarrow> v | None \<Rightarrow> cat))
       (ruleBlocks xml)"

text \<open>Whether a literal occurs in a text, letter case ignored: a tag that does not occur
  is absent.\<close>

fun containsCI :: "string \<Rightarrow> string \<Rightarrow> bool" where
  "containsCI lit [] = (lit = [])"
| "containsCI lit (c # cs) = (startsWithCI lit (c # cs) \<noteq> None \<or> containsCI lit cs)"

text \<open>The property names a body declares, as the specification reads it: the name of
  every \<open><property name="..."\<close> tag, self-closing or in block form, wherever in the body
  it begins.\<close>

fun spec_declaredNames :: "string \<Rightarrow> string list" where
  "spec_declaredNames [] = []"
| "spec_declaredNames (c # cs) =
     (case propertyAt (c # cs) of
        Some (nm, group2, m0, rest) \<Rightarrow> [nm]
      | None \<Rightarrow> [])
     @ spec_declaredNames cs"

section \<open>JSON values\<close>

text \<open>The values \<open>JSON.stringify\<close> writes and \<open>JSON.parse\<close> reads. An object is the list of
  its own properties in enumeration order; its keys are distinct.\<close>

datatype json =
    JNull
  | JBool bool
  | JNum int
  | JStr string
  | JArr "json list"
  | JObj "(string \<times> json) list"

text \<open>Property access \<open>v.key\<close>. \<open>None\<close> is \<open>undefined\<close>: the property of a primitive or of
  an array that none of the keys read in this repository names, or a missing property of
  an object. Reading a property of \<open>null\<close> throws.\<close>

datatype js_error = TypeError

definition getProp :: "json \<Rightarrow> string \<Rightarrow> js_error + json option" where
  "getProp v k =
     (case v of
        JNull \<Rightarrow> Inl TypeError
      | JObj kvs \<Rightarrow> Inr (map_of kvs k)
      | _ \<Rightarrow> Inr None)"

text \<open>The assignment \<open>obj.key = value\<close> on an object, for a key that is not an array
  index: an existing property keeps its place, a new one goes to the end.\<close>

definition setProp :: "string \<Rightarrow> json \<Rightarrow> json \<Rightarrow> json" where
  "setProp k x v = (case v of JObj kvs \<Rightarrow> JObj (AList.update k x kvs) | _ \<Rightarrow> v)"

section \<open>\<open>JSON.stringify\<close> and \<open>JSON.parse\<close>\<close>

text \<open>The two functions belong to the runtime, not to the repository; the model follows
  the ECMAScript definition on the values above. Outside the model are number literals
  with a fraction or an exponent, \<open>\u\<close> escapes of code units from 256 on, and object keys
  that are array indices (the runtime enumerates those first): \<open>JSON.parse\<close> answers
  \<open>Unmodelled\<close> for them, apart from \<open>SyntaxError\<close>.\<close>

definition bs :: char where
  "bs = CHR 0x5C"

definition nl :: char where
  "nl = CHR 0x0A"

definition digitChar :: "nat \<Rightarrow> char" where
  "digitChar d = ''0123456789'' ! d"

fun showNat :: "nat \<Rightarrow> string" where
  "showNat n = (if n < 10 then [digitChar n] else showNat (n div 10) @ [digitChar (n mod 10)])"

declare showNat.simps [simp del]

definition showInt :: "int \<Rightarrow> string" where
  "showInt i = (if i < 0 then CHR ''-'' # showNat (nat (- i)) else showNat (nat i))"

text \<open>\<open>QuoteJSONString\<close>: the quote, the backslash and the control characters are escaped,
  every other code unit stands for itself.\<close>

definition jsonEscapes :: "(char \<times> string) list" where
  "jsonEscapes =
     [(dq, [bs, dq]), (bs, [bs, bs]),
      (CHR 0x08, [bs, CHR ''b'']), (CHR 0x09, [bs, CHR ''t'']), (CHR 0x0A, [bs, CHR ''n'']),
      (CHR 0x0C, [bs, CHR ''f'']), (CHR 0x0D, [bs, CHR ''r'']),
      (CHR 0x00, bs # ''u0000''),
      (CHR 0x01, bs # ''u0001''),
      (CHR 0x02, bs # ''u0002''),
      (CHR 0x03, bs # ''u0003''),
      (CHR 0x04, bs # ''u0004''),
      (CHR 0x05, bs # ''u0005''),
      (CHR 0x06, bs # ''u0006''),
      (CHR 0x07, bs # ''u0007''),
      (CHR 0x0B, bs # ''u000b''),
      (CHR 0x0E, bs # ''u000e''),
      (CHR 0x0F, bs # ''u000f''),
      (CHR 0x10, bs # ''u0010''),
      (CHR 0x11, bs # ''u0011''),
      (CHR 0x12, bs # ''u0012''),
      (CHR 0x13, bs # ''u0013''),
      (CHR 0x14, bs # ''u0014''),
      (CHR 0x15, bs # ''u0015''),
      (CHR 0x16, bs # ''u0016''),
      (CHR 0x17, bs # ''u0017''),
      (CHR 0x18, bs # ''u0018''),
      (CHR 0x19, bs # ''u0019''),
      (CHR 0x1A, bs # ''u001a''),
      (CHR 0x1B, bs # ''u001b''),
      (CHR 0x1C, bs # ''u001c''),
      (CHR 0x1D, bs # ''u001d''),
      (CHR 0x1E, bs # ''u001e''),
      (CHR 0x1F, bs # ''u001f'')]"

definition escapeChar :: "char \<Rightarrow> string" where
  "escapeChar c = (case map_of jsonEscapes c of Some e \<Rightarrow> e | None \<Rightarrow> [c])"

definition quoteJSON :: "string \<Rightarrow> string" where
  "quoteJSON s = dq # concat (map escapeChar s) @ [dq]"

text \<open>\<open>JSON.stringify(value, null, 2)\<close>: the gap is two spaces; \<open>ind\<close> is the current
  indentation.\<close>

definition gap :: string where
  "gap = ''  ''"

fun renderValue :: "string \<Rightarrow> json \<Rightarrow> string"
  and renderElems :: "string \<Rightarrow> json list \<Rightarrow> string"
  and renderMembers :: "string \<Rightarrow> (string \<times> json) list \<Rightarrow> string" where
  "renderValue ind JNull = ''null''"
| "renderValue ind (JBool b) = (if b then ''true'' else ''false'')"
| "renderValue ind (JNum n) = showInt n"
| "renderValue ind (JStr s) = quoteJSON s"
| "renderValue ind (JArr xs) =
     (if xs = [] then ''[]''
      else ''['' @ [nl] @ (ind @ gap) @ renderElems (ind @ gap) xs @ [nl] @ ind @ '']'')"
| "renderValue ind (JObj kvs) =
     (if kvs = [] then ''{}''
      else ''{'' @ [nl] @ (ind @ gap) @ renderMembers (ind @ gap) kvs @ [nl] @ ind @ ''}'')"
| "renderElems ind [] = []"
| "renderElems ind [x] = renderValue ind x"
| "renderElems ind (x # y # ys) =
     renderValue ind x @ '','' @ [nl] @ ind @ renderElems ind (y # ys)"
| "renderMembers ind [] = []"
| "renderMembers ind [(k, v)] = quoteJSON k @ '': '' @ renderValue ind v"
| "renderMembers ind ((k, v) # m # ms) =
     quoteJSON k @ '': '' @ renderValue ind v @ '','' @ [nl] @ ind @ renderMembers ind (m # ms)"

definition JSON_stringify :: "json \<Rightarrow> string" where
  "JSON_stringify v = renderValue [] v"

datatype parse_error = SyntaxError | Unmodelled | OutOfFuel

definition isJsonWs :: "char \<Rightarrow> bool" where
  "isJsonWs c \<longleftrightarrow> c \<in> set [CHR 0x20, CHR 0x09, CHR 0x0A, CHR 0x0D]"

definition skipWs :: "string \<Rightarrow> string" where
  "skipWs s = dropWhile isJsonWs s"

definition isDecDigit :: "char \<Rightarrow> bool" where
  "isDecDigit c \<longleftrightarrow> c \<in> set ''0123456789''"

definition controlChars :: string where
  "controlChars =
     [CHR 0x00, CHR 0x01, CHR 0x02, CHR 0x03, CHR 0x04, CHR 0x05, CHR 0x06, CHR 0x07,
      CHR 0x08, CHR 0x09, CHR 0x0A, CHR 0x0B, CHR 0x0C, CHR 0x0D, CHR 0x0E, CHR 0x0F,
      CHR 0x10, CHR 0x11, CHR 0x12, CHR 0x13, CHR 0x14, CHR 0x15, CHR 0x16, CHR 0x17,
      CHR 0x18, CHR 0x19, CHR 0x1A, CHR 0x1B, CHR 0x1C, CHR 0x1D, CHR 0x1E, CHR 0x1F]"

definition simpleEscapes :: "(char \<times> char) list" where
  "simpleEscapes =
     [(dq, dq), (bs, bs), (CHR ''/'', CHR ''/''), (CHR ''b'', CHR 0x08), (CHR ''f'', CHR 0x0C),
      (CHR ''n'', CHR 0x0A), (CHR ''r'', CHR 0x0D), (CHR ''t'', CHR 0x09)]"

definition unicodeEscape :: "string \<Rightarrow> parse_error + char" where
  "unicodeEscape hs =
     (if length hs = 4 \<and> list_all (isDigitIn 16) hs
      then (if digitsValue 16 hs < 256 then Inr (char_of (digitsValue 16 hs))
            else Inl Unmodelled)
      else Inl SyntaxError)"

text \<open>The characters of a string literal behind its opening quote, up to the closing
  one.\<close>

fun parseChars :: "string \<Rightarrow> parse_error + string \<times> string" where
  "parseChars [] = Inl SyntaxError"
| "parseChars (c # cs) =
     (if c = dq then Inr ([], cs)
      else if c = bs then
        (case cs of
           [] \<Rightarrow> Inl SyntaxError
         | e # es \<Rightarrow>
             if e = CHR ''u'' then
               (case unicodeEscape (take 4 es) of
                  Inl err \<Rightarrow> Inl err
                | Inr u \<Rightarrow>
                    (case parseChars (drop 4 es) of
                       Inl err \<Rightarrow> Inl err
                     | Inr (str, rest) \<Rightarrow> Inr (u # str, rest)))
             else
               (case map_of simpleEscapes e of
                  None \<Rightarrow> Inl SyntaxError
                | Some u \<Rightarrow>
                    (case parseChars es of
                       Inl err \<Rightarrow> Inl err
                     | Inr (str, rest) \<Rightarrow> Inr (u # str, rest))))
      else if c \<in> set controlChars then Inl SyntaxError
      else (case parseChars cs of
              Inl err \<Rightarrow> Inl err
            | Inr (str, rest) \<Rightarrow> Inr (c # str, rest)))"

text \<open>A number literal: a minus sign, then \<open>0\<close> or a digit from 1 to 9 with the digits
  behind it.\<close>

definition parseNumber :: "string \<Rightarrow> parse_error + json \<times> string" where
  "parseNumber s =
     (let neg = (s \<noteq> [] \<and> hd s = CHR ''-'');
          s1 = (if neg then tl s else s)
      in case s1 of
           [] \<Rightarrow> Inl SyntaxError
         | d # ds \<Rightarrow>
             if \<not> isDecDigit d then Inl SyntaxError
             else
               (let digits = (if d = CHR ''0'' then [d] else d # takeWhile isDecDigit ds);
                    rest = (if d = CHR ''0'' then ds else dropWhile isDecDigit ds);
                    n = int (digitsValue 10 digits)
                in if rest \<noteq> [] \<and> hd rest \<in> set ''.eE'' then Inl Unmodelled
                   else Inr (JNum (if neg then - n else n), rest)))"

definition parseLiteral :: "string \<Rightarrow> parse_error + json \<times> string" where
  "parseLiteral s =
     (case startsWith ''null'' s of
        Some r \<Rightarrow> Inr (JNull, r)
      | None \<Rightarrow>
          (case startsWith ''true'' s of
             Some r \<Rightarrow> Inr (JBool True, r)
           | None \<Rightarrow>
               (case startsWith ''false'' s of
                  Some r \<Rightarrow> Inr (JBool False, r)
                | None \<Rightarrow> Inl SyntaxError)))"

text \<open>The object built from the members read, in the order read: a key read again
  replaces the value and keeps the place of the first.\<close>

definition isArrayIndex :: "string \<Rightarrow> bool" where
  "isArrayIndex k \<longleftrightarrow>
     k \<noteq> [] \<and> list_all isDecDigit k \<and> (k = ''0'' \<or> hd k \<noteq> CHR ''0'') \<and>
     digitsValue 10 k < 4294967295"

definition objectOf :: "(string \<times> json) list \<Rightarrow> parse_error + json" where
  "objectOf ms =
     (if list_ex (\<lambda>m. isArrayIndex (fst m)) ms then Inl Unmodelled
      else Inr (JObj (foldl (\<lambda>obj m. AList.update (fst m) (snd m) obj) [] ms)))"

text \<open>The recursive descent. The first argument bounds the depth of the recursion;
  \<open>JSON_parse\<close> passes a bound the text cannot exhaust.\<close>

fun parseValue :: "nat \<Rightarrow> string \<Rightarrow> parse_error + json \<times> string"
  and parseElems :: "nat \<Rightarrow> string \<Rightarrow> parse_error + json list \<times> string"
  and parseMembers :: "nat \<Rightarrow> string \<Rightarrow> parse_error + (string \<times> json) list \<times> string" where
  "parseValue 0 s = Inl OutOfFuel"
| "parseValue (Suc f) s =
     (case skipWs s of
        [] \<Rightarrow> Inl SyntaxError
      | c # cs \<Rightarrow>
          if c = CHR ''['' then
            (case skipWs cs of
               [] \<Rightarrow> Inl SyntaxError
             | d # ds \<Rightarrow>
                 if d = CHR '']'' then Inr (JArr [], ds)
                 else (case parseElems f (d # ds) of
                         Inl err \<Rightarrow> Inl err
                       | Inr (vs, rest) \<Rightarrow> Inr (JArr vs, rest)))
          else if c = CHR ''{'' then
            (case skipWs cs of
               [] \<Rightarrow> Inl SyntaxError
             | d # ds \<Rightarrow>
                 if d = CHR ''}'' then Inr (JObj [], ds)
                 else (case parseMembers f (d # ds) of
                         Inl err \<Rightarrow> Inl err
                       | Inr (ms, rest) \<Rightarrow>
                           (case objectOf ms of
                              Inl err \<Rightarrow> Inl err
                            | Inr obj \<Rightarrow> Inr (obj, rest))))
          else if c = dq then
            (case parseChars cs of
               Inl err \<Rightarrow> Inl err
             | Inr (str, rest) \<Rightarrow> Inr (JStr str, rest))
          else if c = CHR ''-'' \<or> isDecDigit c then parseNumber (c # cs)
          else parseLiteral (c # cs))"
| "parseElems 0 s = Inl OutOfFuel"
| "parseElems (Suc f) s =
     (case parseValue f s of
        Inl err \<Rightarrow> Inl err
      | Inr (v, r) \<Rightarrow>
          (case skipWs r of
             [] \<Rightarrow> Inl SyntaxError
           | c # cs \<Rightarrow>
               if c = CHR '','' then
                 (case parseElems f cs of
                    Inl err \<Rightarrow> Inl err
                  | Inr (vs, rest) \<Rightarrow> Inr (v # vs, rest))
               else if c = CHR '']'' then Inr ([v], cs)
               else Inl SyntaxError))"
| "parseMembers 0 s = Inl OutOfFuel"
| "parseMembers (Suc f) s =
     (case skipWs s of
        [] \<Rightarrow> Inl SyntaxError
      | q # qs \<Rightarrow>
          if q \<noteq> dq then Inl SyntaxError
          else
            (case parseChars qs of
               Inl err \<Rightarrow> Inl err
             | Inr (k, r1) \<Rightarrow>
                 (case skipWs r1 of
                    [] \<Rightarrow> Inl SyntaxError
                  | colon # r2 \<Rightarrow>
                      if colon \<noteq> CHR '':'' then Inl SyntaxError
                      else
                        (case parseValue f r2 of
                           Inl err \<Rightarrow> Inl err
                         | Inr (v, r3) \<Rightarrow>
                             (case skipWs r3 of
                                [] \<Rightarrow> Inl SyntaxError
                              | c # cs \<Rightarrow>
                                  if c = CHR '','' then
                                    (case parseMembers f cs of
                                       Inl err \<Rightarrow> Inl err
                                     | Inr (ms, rest) \<Rightarrow> Inr ((k, v) # ms, rest))
                                  else if c = CHR ''}'' then Inr ([(k, v)], cs)
                                  else Inl SyntaxError)))))"

definition JSON_parse :: "string \<Rightarrow> parse_error + json" where
  "JSON_parse s =
     (case parseValue (2 * length s + 1) s of
        Inl err \<Rightarrow> Inl err
      | Inr (v, rest) \<Rightarrow> if skipWs rest = [] then Inr v else Inl SyntaxError)"

text \<open>\<open>String(value)\<close>, for \<open>String(rule.priority)\<close>.\<close>

fun joinWith :: "string \<Rightarrow> string list \<Rightarrow> string" where
  "joinWith sep [] = []"
| "joinWith sep [x] = x"
| "joinWith sep (x # y # ys) = x @ sep @ joinWith sep (y # ys)"

fun toStringJS :: "json option \<Rightarrow> string" where
  "toStringJS None = ''undefined''"
| "toStringJS (Some JNull) = ''null''"
| "toStringJS (Some (JBool b)) = (if b then ''true'' else ''false'')"
| "toStringJS (Some (JNum n)) = showInt n"
| "toStringJS (Some (JStr s)) = s"
| "toStringJS (Some (JArr xs)) =
     joinWith '','' (map (\<lambda>x. if x = JNull then [] else toStringJS (Some x)) xs)"
| "toStringJS (Some (JObj kvs)) = ''[object Object]''"


text \<open>The values the model of \<open>JSON.parse\<close> produces: the keys of every object are
  distinct and none is an array index.\<close>

fun wfJson :: "json \<Rightarrow> bool" where
  "wfJson (JArr xs) = list_all wfJson xs"
| "wfJson (JObj kvs) =
     (distinct (map fst kvs) \<and> list_all (\<lambda>m. \<not> isArrayIndex (fst m)) kvs \<and>
      list_all (\<lambda>m. wfJson (snd m)) kvs)"
| "wfJson v = True"

text \<open>Two notions for reading rendered text back: a text that cannot continue a number
  literal, and a text of JSON white space only.\<close>

definition sepAfter :: "string \<Rightarrow> bool" where
  "sepAfter rest \<longleftrightarrow> (case rest of [] \<Rightarrow> True | c # _ \<Rightarrow> \<not> isDecDigit c \<and> c \<notin> set ''.eE'')"

definition wsOnly :: "string \<Rightarrow> bool" where
  "wsOnly ws \<longleftrightarrow> list_all isJsonWs ws"

section \<open>Catalogue Builder\<close>

text \<open>The object literal pushed for one rule. The three spreads
  \<open>...(properties.length > 0 && { properties })\<close>,
  \<open>...(maxLangVersion && { maxLanguageVersion: maxLangVersion })\<close> and
  \<open>...(minLangVersion && { minLanguageVersion: minLangVersion })\<close> add their field only
  for a non-empty value.\<close>

definition propertyObject :: "property \<Rightarrow> json" where
  "propertyObject p =
     JObj [(''name'', JStr (prop_name p)),
           (''defaultValue'', JStr (prop_defaultValue p)),
           (''description'', JStr (prop_description p))]"

definition ruleFields :: "rule \<Rightarrow> (string \<times> json) list" where
  "ruleFields r =
     [(''name'', JStr (name r)),
      (''category'', JStr (category r)),
      (''categoryName'', JStr (categoryName r)),
      (''since'', JStr (since r)),
      (''message'', JStr (message r)),
      (''ruleClass'', JStr (ruleClass r)),
      (''externalInfoUrl'', JStr (externalInfoUrl r)),
      (''description'', JStr (description r)),
      (''priority'', JNum (priority r)),
      (''examples'', JArr (map JStr (examples r)))]
     @ (if properties r \<noteq> [] then [(''properties'', JArr (map propertyObject (properties r)))]
        else [])
     @ (if maxLangVersion r \<noteq> [] then [(''maxLanguageVersion'', JStr (maxLangVersion r))]
        else [])
     @ (if minLangVersion r \<noteq> [] then [(''minLanguageVersion'', JStr (minLangVersion r))]
        else [])"

definition ruleObject :: "rule \<Rightarrow> json" where
  "ruleObject r = JObj (ruleFields r)"












text \<open>The text written to \<open>rules_data.js\<close>: the assignment around the rendered array.\<close>

definition wrapModule :: "string \<Rightarrow> string" where
  "wrapModule jsonText = ''const RULES_DATA ='' @ [nl] @ jsonText @ '';'' @ [nl]"


section \<open>Tier Annotator\<close>

text \<open>An entry of \<open>TIER_MAP\<close>: the tier is a number (1, 2, 3) or a string (\<open>"skip"\<close>). The
  table itself is static content of the script; the model takes it as a parameter, a
  map from rule names to entries.\<close>

datatype tierValue = TierNumber int | TierString string

record tierInfo =
  tier :: tierValue
  claude_comment :: string

fun tierJson :: "tierValue \<Rightarrow> json" where
  "tierJson (TierNumber n) = JNum n"
| "tierJson (TierString s) = JStr s"

text \<open>\<open>raw.replace(/^const RULES_DATA =\s*/, "")\<close>.\<close>

definition stripPrefix :: "string \<Rightarrow> string" where
  "stripPrefix raw =
     (case startsWith ''const RULES_DATA ='' raw of
        Some r \<Rightarrow> dropWhile isSpace r
      | None \<Rightarrow> raw)"

text \<open>\<open>.replace(/;\s*$/, "")\<close>: the leftmost semicolon with nothing but white space
  behind it is removed together with that white space.\<close>

fun dropSemicolonTail :: "string \<Rightarrow> string option" where
  "dropSemicolonTail [] = None"
| "dropSemicolonTail (c # cs) =
     (if c = CHR '';'' \<and> list_all isSpace cs then Some []
      else map_option ((#) c) (dropSemicolonTail cs))"

definition stripSuffix :: "string \<Rightarrow> string" where
  "stripSuffix s = (case dropSemicolonTail s of Some r \<Rightarrow> r | None \<Rightarrow> s)"

definition moduleJson :: "string \<Rightarrow> string" where
  "moduleJson raw = stripSuffix (stripPrefix raw)"

text \<open>\<open>rules.map((r) => r.name)\<close>: reading a property of \<open>null\<close> throws.\<close>

fun ruleNames :: "json list \<Rightarrow> js_error + json option list" where
  "ruleNames [] = Inr []"
| "ruleNames (r # rs) =
     (case getProp r ''name'' of
        Inl e \<Rightarrow> Inl e
      | Inr n \<Rightarrow> (case ruleNames rs of Inl e \<Rightarrow> Inl e | Inr ns \<Rightarrow> Inr (n # ns)))"

text \<open>\<open>tierMapKeys.has(name)\<close>: the keys are strings, so only a string can be among
  them.\<close>

definition hasKey :: "(string \<rightharpoonup> tierInfo) \<Rightarrow> json option \<Rightarrow> bool" where
  "hasKey tierMap n = (case n of Some (JStr s) \<Rightarrow> tierMap s \<noteq> None | _ \<Rightarrow> False)"

text \<open>The body of the loop over the rules: \<open>TIER_MAP[rule.name]\<close> converts the name to a
  property key, and the two assignments follow. The loop is reached only when every
  name is a key of the table.\<close>

definition annotateRule :: "(string \<rightharpoonup> tierInfo) \<Rightarrow> json \<Rightarrow> js_error + json" where
  "annotateRule tierMap rule =
     (case getProp rule ''name'' of
        Inl e \<Rightarrow> Inl e
      | Inr n \<Rightarrow>
          (case tierMap (toStringJS n) of
             None \<Rightarrow> Inl TypeError
           | Some info \<Rightarrow>
               Inr (setProp ''claude_comment'' (JStr (claude_comment info))
                      (setProp ''tier'' (tierJson (tier info)) rule))))"

fun annotateAll :: "(string \<rightharpoonup> tierInfo) \<Rightarrow> json list \<Rightarrow> js_error + json list" where
  "annotateAll tierMap [] = Inr []"
| "annotateAll tierMap (r # rs) =
     (case annotateRule tierMap r of
        Inl e \<Rightarrow> Inl e
      | Inr r' \<Rightarrow>
          (case annotateAll tierMap rs of Inl e \<Rightarrow> Inl e | Inr rs' \<Rightarrow> Inr (r' # rs')))"

text \<open>The outcome of a run: the exit status and the text of \<open>rules_data.js\<close> afterwards.
  \<open>OutsideModel\<close> says that the file holds JSON the model of \<open>JSON.parse\<close> does not
  cover.\<close>

datatype outcome = Exit nat string | OutsideModel

text \<open>\<open>main\<close> of the Annotator, from the text of \<open>rules_data.js\<close> on. A failed parse is
  caught and ends the run with status 1; an uncaught \<open>TypeError\<close> (the parsed value is not
  an array, or an element is \<open>null\<close>) ends it with status 1 as well; so does a name missing
  from the table. The file is written only at the end of a run that got that far.\<close>

definition annotatorMain :: "(string \<rightharpoonup> tierInfo) \<Rightarrow> string \<Rightarrow> outcome" where
  "annotatorMain tierMap raw =
     (case JSON_parse (moduleJson raw) of
        Inl SyntaxError \<Rightarrow> Exit 1 raw
      | Inl _ \<Rightarrow> OutsideModel
      | Inr (JArr rules) \<Rightarrow>
          (case ruleNames rules of
             Inl e \<Rightarrow> Exit 1 raw
           | Inr names \<Rightarrow>
               if filter (\<lambda>n. \<not> hasKey tierMap n) names \<noteq> [] then Exit 1 raw
               else (case annotateAll tierMap rules of
                       Inl e \<Rightarrow> Exit 1 raw
                     | Inr rules' \<Rightarrow> Exit 0 (wrapModule (JSON_stringify (JArr rules')))))
      | Inr _ \<Rightarrow> Exit 1 raw)"

text \<open>What the rewrite may change, as the specification words it: two records are the
  same but for \<open>tier\<close> and \<open>claude_comment\<close> when every other key has the same value in
  both and the other fields stand in the same order.\<close>

definition otherFields :: "json \<Rightarrow> (string \<times> json) list" where
  "otherFields v =
     (case v of
        JObj kvs \<Rightarrow> filter (\<lambda>m. fst m \<noteq> ''tier'' \<and> fst m \<noteq> ''claude_comment'') kvs
      | _ \<Rightarrow> [])"

definition spec_sameButTier :: "json \<Rightarrow> json \<Rightarrow> bool" where
  "spec_sameButTier r r' \<longleftrightarrow>
     (case (r, r') of
        (JObj kvs, JObj kvs') \<Rightarrow> otherFields r = otherFields r'
      | _ \<Rightarrow> False)"

text \<open>A record whose name has no entry in the table.\<close>

definition unlisted :: "(string \<rightharpoonup> tierInfo) \<Rightarrow> json \<Rightarrow> bool" where
  "unlisted tierMap r =
     (case getProp r ''name'' of Inl e \<Rightarrow> True | Inr n \<Rightarrow> \<not> hasKey tierMap n)"

section \<open>Viewer: filter and pagination\<close>

definition RULES_PER_PAGE :: nat where
  "RULES_PER_PAGE = 20"

text \<open>\<open>s.includes(t)\<close>: \<open>t\<close> occurs in \<open>s\<close>.\<close>

fun includesStr :: "string \<Rightarrow> string \<Rightarrow> bool" where
  "includesStr [] t = (t = [])"
| "includesStr (c # cs) t = (startsWith t (c # cs) \<noteq> None \<or> includesStr cs t)"

text \<open>\<open>rule.field.toLowerCase().includes(searchTerm)\<close>: calling \<open>toLowerCase\<close> on anything
  but a string throws.\<close>

definition fieldIncludes :: "json \<Rightarrow> string \<Rightarrow> string \<Rightarrow> js_error + bool" where
  "fieldIncludes rule k term =
     (case getProp rule k of
        Inl e \<Rightarrow> Inl e
      | Inr (Some (JStr s)) \<Rightarrow> Inr (includesStr (toLowerCase s) term)
      | Inr _ \<Rightarrow> Inl TypeError)"

text \<open>Truthiness of a value, for \<open>rule.categoryName && ...\<close>.\<close>

fun truthy :: "json option \<Rightarrow> bool" where
  "truthy None = False"
| "truthy (Some JNull) = False"
| "truthy (Some (JBool b)) = b"
| "truthy (Some (JNum n)) = (n \<noteq> 0)"
| "truthy (Some (JStr s)) = (s \<noteq> [])"
| "truthy (Some (JArr xs)) = True"
| "truthy (Some (JObj kvs)) = True"

text \<open>The callback of \<open>rules.filter\<close> in \<open>applyFilters\<close>. The three constants are computed in
  turn; within \<open>matchesSearch\<close> the operands of \<open>||\<close> are evaluated left to right until one is
  true.\<close>

definition matchesSearch :: "string \<Rightarrow> json \<Rightarrow> js_error + bool" where
  "matchesSearch term rule =
     (if term = [] then Inr True
      else case fieldIncludes rule ''name'' term of
        Inl e \<Rightarrow> Inl e
      | Inr True \<Rightarrow> Inr True
      | Inr False \<Rightarrow>
          (case fieldIncludes rule ''message'' term of
             Inl e \<Rightarrow> Inl e
           | Inr True \<Rightarrow> Inr True
           | Inr False \<Rightarrow>
               (case fieldIncludes rule ''description'' term of
                  Inl e \<Rightarrow> Inl e
                | Inr True \<Rightarrow> Inr True
                | Inr False \<Rightarrow>
                    (case getProp rule ''categoryName'' of
                       Inl e \<Rightarrow> Inl e
                     | Inr cn \<Rightarrow>
                         if truthy cn then fieldIncludes rule ''categoryName'' term
                         else Inr False))))"

definition matchesRule ::
    "string list \<Rightarrow> string list \<Rightarrow> string \<Rightarrow> json \<Rightarrow> js_error + bool" where
  "matchesRule categories priorities term rule =
     (case getProp rule ''category'' of
        Inl e \<Rightarrow> Inl e
      | Inr cat \<Rightarrow>
          (let matchesCategory =
                 (categories = [] \<or> (case cat of Some (JStr c) \<Rightarrow> c \<in> set categories | _ \<Rightarrow> False))
           in case getProp rule ''priority'' of
                Inl e \<Rightarrow> Inl e
              | Inr p \<Rightarrow>
                  (let matchesPriority = (priorities = [] \<or> toStringJS p \<in> set priorities)
                   in case matchesSearch term rule of
                        Inl e \<Rightarrow> Inl e
                      | Inr ms \<Rightarrow> Inr (matchesCategory \<and> matchesPriority \<and> ms))))"

fun filterRules :: "(json \<Rightarrow> js_error + bool) \<Rightarrow> json list \<Rightarrow> js_error + json list" where
  "filterRules f [] = Inr []"
| "filterRules f (x # xs) =
     (case f x of
        Inl e \<Rightarrow> Inl e
      | Inr keep \<Rightarrow>
          (case filterRules f xs of
             Inl e \<Rightarrow> Inl e
           | Inr ys \<Rightarrow> Inr (if keep then x # ys else ys)))"

text \<open>\<open>applyFilters\<close>: the checked categories and priorities and the text of the search box
  give the filtered list; the page shown is reset to 1.\<close>

definition applyFilters ::
    "string list \<Rightarrow> string list \<Rightarrow> string \<Rightarrow> json list \<Rightarrow> js_error + json list" where
  "applyFilters categories priorities searchValue rules =
     filterRules (matchesRule categories priorities (trim (toLowerCase searchValue))) rules"

text \<open>\<open>renderRules\<close>: the slice of the filtered list shown as page \<open>currentPage\<close> (from 1).\<close>

definition pageRules :: "nat \<Rightarrow> 'a list \<Rightarrow> 'a list" where
  "pageRules currentPage filteredRules =
     (let startIndex = (currentPage - 1) * RULES_PER_PAGE;
          endIndex = startIndex + RULES_PER_PAGE
      in take (endIndex - startIndex) (drop startIndex filteredRules))"

text \<open>\<open>Math.ceil(filteredRules.length / RULES_PER_PAGE)\<close>.\<close>

definition totalPages :: "'a list \<Rightarrow> nat" where
  "totalPages filteredRules = (length filteredRules + RULES_PER_PAGE - 1) div RULES_PER_PAGE"

text \<open>The records the Viewer is given: objects whose \<open>name\<close>, \<open>message\<close>, \<open>description\<close>,
  \<open>category\<close> and \<open>categoryName\<close> are strings and whose \<open>priority\<close> is a number.\<close>

fun strOf :: "json option \<Rightarrow> string option" where
  "strOf (Some (JStr s)) = Some s"
| "strOf _ = None"

definition strField :: "json \<Rightarrow> string \<Rightarrow> string option" where
  "strField v k = (case getProp v k of Inl e \<Rightarrow> None | Inr x \<Rightarrow> strOf x)"

fun numOf :: "json option \<Rightarrow> int option" where
  "numOf (Some (JNum n)) = Some n"
| "numOf _ = None"

definition numField :: "json \<Rightarrow> string \<Rightarrow> int option" where
  "numField v k = (case getProp v k of Inl e \<Rightarrow> None | Inr x \<Rightarrow> numOf x)"

definition viewerRecord :: "json \<Rightarrow> bool" where
  "viewerRecord v \<longleftrightarrow>
     strField v ''name'' \<noteq> None \<and> strField v ''message'' \<noteq> None \<and>
     strField v ''description'' \<noteq> None \<and> strField v ''category'' \<noteq> None \<and>
     strField v ''categoryName'' \<noteq> None \<and> numField v ''priority'' \<noteq> None"

text \<open>The filter as the specification words it: the category is among the selected ones
  or none is selected, the priority likewise, and the trimmed, lowercased search term is
  empty or occurs in the lowercased name, message, description or category name.\<close>

definition lowered :: "json \<Rightarrow> string \<Rightarrow> string" where
  "lowered v k = toLowerCase (case strField v k of Some s \<Rightarrow> s | None \<Rightarrow> [])"

definition spec_visible :: "string list \<Rightarrow> string list \<Rightarrow> string \<Rightarrow> json \<Rightarrow> bool" where
  "spec_visible categories priorities searchValue v \<longleftrightarrow>
     (categories = [] \<or> (case strField v ''category'' of Some c \<Rightarrow> c \<in> set categories | None \<Rightarrow> False)) \<and>
     (priorities = [] \<or>
        (case numField v ''priority'' of Some n \<Rightarrow> showInt n \<in> set priorities | None \<Rightarrow> False)) \<and>
     (trim (toLowerCase searchValue) = [] \<or>
      includesStr (lowered v ''name'') (trim (toLowerCase searchValue)) \<or>
      includesStr (lowered v ''message'') (trim (toLowerCase searchValue)) \<or>
      includesStr (lowered v ''description'') (trim (toLowerCase searchValue)) \<or>
      includesStr (lowered v ''categoryName'') (trim (toLowerCase searchValue)))"

section \<open>Properties of the Rule Parser\<close>

lemma set_map_filter:
  "set (List.map_filter f xs) = {y. \<exists>x\<in>set xs. f x = Some y}"
  by (induction xs) (auto simp: map_filter_simps split: option.splits)

lemma parseXmlFile_blocks:
  "r \<in> set (parseXmlFile xml cat) \<longleftrightarrow>
   (\<exists>m\<in>set (ruleBlocks xml).
      ruleOfBlock cat (case rulesetSearch xml of Some v \<Rightarrow> v | None \<Rightarrow> cat) m = Some r)"
  by (simp add: parseXmlFile_def set_map_filter)

lemma elementSearch_absent:
  "\<not> containsCI (''<'' @ tag) s \<Longrightarrow> elementSearch tag s = None"
  by (induction s) (auto simp: elementAt_def split: option.splits)

lemma extractFirstElement_absent:
  "\<not> containsCI (''<'' @ tag) s \<Longrightarrow> extractFirstElement s tag = []"
  by (simp add: extractFirstElement_def elementSearch_absent)





lemma ruleOfBlock_Some:
  assumes "ruleOfBlock cat rn (attrs, body) = Some r"
  shows "\<not> hasRef attrs" and "extractAttr attrs ''name'' \<noteq> []"
    and "name r = extractAttr attrs ''name''"
    and "priority r = priorityOf (extractFirstElement body ''priority'')"
  using assms by (auto simp: ruleOfBlock_def split: if_splits)

lemma ruleOfBlock_None_iff:
  "ruleOfBlock cat rn m = None \<longleftrightarrow> hasRef (fst m) \<or> extractAttr (fst m) ''name'' = []"
  by (cases m) (simp add: ruleOfBlock_def)

lemma ruleOfBlock_name:
  "ruleOfBlock cat rn m = Some r \<Longrightarrow> name r = extractAttr (fst m) ''name''"
  by (cases m) (auto simp: ruleOfBlock_def split: if_splits)




text \<open>
  C6: the records emitted for a document are, in order, those of the matched
  \<open><rule>\<close> blocks whose attribute text has no \<open>ref=\<close> assignment and whose \<open>name\<close>
  attribute is found and not empty; a block with a \<open>ref=\<close> assignment and a block
  without such a name give no record, and every emitted record has a non-empty name.
\<close>

theorem parser_skips_ref_and_nameless:
  "map name (parseXmlFile xml cat) =
     map (\<lambda>m. extractAttr (fst m) ''name'')
       (filter (\<lambda>m. \<not> hasRef (fst m) \<and> extractAttr (fst m) ''name'' \<noteq> []) (ruleBlocks xml))
   \<and> (\<forall>r\<in>set (parseXmlFile xml cat). name r \<noteq> [])
   \<and> (\<forall>attrs body. hasRef attrs \<longrightarrow> ruleOfBlock cat rn (attrs, body) = None)
   \<and> (\<forall>attrs body. attrSearch ''name'' attrs = None \<or> attrSearch ''name'' attrs = Some []
         \<longrightarrow> ruleOfBlock cat rn (attrs, body) = None)"
proof -
  have "map name (List.map_filter (ruleOfBlock cat rs) ms) =
     map (\<lambda>m. extractAttr (fst m) ''name'')
       (filter (\<lambda>m. \<not> hasRef (fst m) \<and> extractAttr (fst m) ''name'' \<noteq> []) ms)" for rs ms
    by (induction ms)
       (auto simp: map_filter_simps ruleOfBlock_None_iff split: option.splits
          dest: ruleOfBlock_name ruleOfBlock_Some(1,2))
  then have "map name (parseXmlFile xml cat) =
     map (\<lambda>m. extractAttr (fst m) ''name'')
       (filter (\<lambda>m. \<not> hasRef (fst m) \<and> extractAttr (fst m) ''name'' \<noteq> []) (ruleBlocks xml))"
    by (simp add: parseXmlFile_def)
  moreover have "\<forall>r\<in>set (parseXmlFile xml cat). name r \<noteq> []"
  proof
    fix r assume "r \<in> set (parseXmlFile xml cat)"
    then obtain attrs body
      where "ruleOfBlock cat (case rulesetSearch xml of Some v \<Rightarrow> v | None \<Rightarrow> cat)
               (attrs, body) = Some r"
      unfolding parseXmlFile_blocks by auto
    then show "name r \<noteq> []"
      using ruleOfBlock_Some(2,3) by metis
  qed
  moreover have "\<forall>attrs body. hasRef attrs \<longrightarrow> ruleOfBlock cat rn (attrs, body) = None"
    by (simp add: ruleOfBlock_def)
  moreover have "\<forall>attrs body. attrSearch ''name'' attrs = None \<or> attrSearch ''name'' attrs = Some []
         \<longrightarrow> ruleOfBlock cat rn (attrs, body) = None"
    by (auto simp: ruleOfBlock_def extractAttr_def)
  ultimately show ?thesis by blast
qed

theorem parser_skips_ref_and_nameless_witness:
  \<open>map name (parseXmlFile
      ''<rule ref="a.xml/B">x</rule><rule since="1">y</rule><rule name="Foo">z</rule>''
      ''design'') = [''Foo'']
   \<and> length (ruleBlocks
      ''<rule ref="a.xml/B">x</rule><rule since="1">y</rule><rule name="Foo">z</rule>'') = 3\<close>
proof -
  have \<open>map (\<lambda>m. extractAttr (fst m) ''name'')
       (filter (\<lambda>m. \<not> hasRef (fst m) \<and> extractAttr (fst m) ''name'' \<noteq> [])
         (ruleBlocks
           ''<rule ref="a.xml/B">x</rule><rule since="1">y</rule><rule name="Foo">z</rule>''))
     = [''Foo'']\<close>
    by code_simp
  moreover have \<open>length (ruleBlocks
      ''<rule ref="a.xml/B">x</rule><rule since="1">y</rule><rule name="Foo">z</rule>'') = 3\<close>
    by code_simp
  ultimately show ?thesis
    using parser_skips_ref_and_nameless
      [of \<open>''<rule ref="a.xml/B">x</rule><rule since="1">y</rule><rule name="Foo">z</rule>''\<close>
          \<open>''design''\<close>]
    by simp
qed

text \<open>
  C7 at a failing input. The body declares \<open>version\<close>, \<open>maxLen\<close> and \<open>xpath\<close> in this
  order, the first two self-closing. The match that starts at \<open>version\<close> does not end
  at its \<open>/>\<close>: it runs on to the \<open></property>\<close> of \<open>xpath\<close>, is skipped for its name,
  and \<open>maxLen\<close> is never looked at. The emitted object has no \<open>properties\<close> field although
  \<open>maxLen\<close> is a declared property that is neither \<open>xpath\<close> nor \<open>version\<close>.
\<close>

theorem properties_lost_after_self_closing:
  \<open>spec_declaredNames
     ''<property name="version" value="2.0"/><property name="maxLen" value="3"/><property name="xpath"><value>//X</value></property>''
     = [''version'', ''maxLen'', ''xpath'']
   \<and> extractProperties
     ''<property name="version" value="2.0"/><property name="maxLen" value="3"/><property name="xpath"><value>//X</value></property>''
     = []
   \<and> map (\<lambda>r. map_of (ruleFields r) ''properties'')
       (parseXmlFile
         ''<rule name="R"><property name="version" value="2.0"/><property name="maxLen" value="3"/><property name="xpath"><value>//X</value></property></rule>''
         ''design'')
     = [None]\<close>
  by code_simp

section \<open>Properties of the Catalogue Builder\<close>





























section \<open>Properties of the Viewer\<close>

lemma filterRules_filter:
  "\<forall>x\<in>set xs. f x = Inr (P x) \<Longrightarrow> filterRules f xs = Inr (filter P xs)"
  by (induction xs) auto

lemma includesStr_Nil: "t \<noteq> [] \<Longrightarrow> \<not> includesStr [] t"
  by simp

lemma matchesRule_spec:
  assumes "viewerRecord v"
  shows "matchesRule cats prios (trim (toLowerCase sv)) v = Inr (spec_visible cats prios sv v)"
proof -
  from assms obtain kvs where v: "v = JObj kvs"
    by (cases v) (auto simp: viewerRecord_def strField_def getProp_def)
  from assms obtain n m d c cn p
    where f: "map_of kvs ''name'' = Some (JStr n)" "map_of kvs ''message'' = Some (JStr m)"
      "map_of kvs ''description'' = Some (JStr d)" "map_of kvs ''category'' = Some (JStr c)"
      "map_of kvs ''categoryName'' = Some (JStr cn)" "map_of kvs ''priority'' = Some (JNum p)"
    unfolding viewerRecord_def strField_def numField_def getProp_def v
    by (auto elim!: strOf.elims numOf.elims)
  show ?thesis
    unfolding v matchesRule_def matchesSearch_def fieldIncludes_def getProp_def
      spec_visible_def lowered_def strField_def numField_def
    by (cases "cn = []") (auto simp: f Let_def toLowerCase_def split: bool.splits)
qed

lemma pageRules_eq: "pageRules p xs = take 20 (drop ((p - 1) * 20) xs)"
  by (simp add: pageRules_def RULES_PER_PAGE_def Let_def)

lemma pages_concat_aux:
  "concat (map (\<lambda>i. take k (drop (i * k) xs)) [0..<n]) = take (n * k) xs"
proof (induction n)
  case 0
  show ?case by simp
next
  case (Suc n)
  have "take (n * k) xs @ take k (drop (n * k) xs) = take (n * k + k) xs"
    by (simp add: take_add)
  with Suc show ?case by (simp add: add.commute)
qed

lemma pages_cover:
  "concat (map (\<lambda>p. pageRules p xs) [Suc 0..<Suc (totalPages xs)]) = xs"
proof -
  have "map (\<lambda>p. pageRules p xs) [Suc 0..<Suc (totalPages xs)]
      = map (\<lambda>i. take 20 (drop (i * 20) xs)) [0..<totalPages xs]"
    unfolding pageRules_eq
    by (simp add: map_Suc_upt [symmetric] del: upt_Suc)
  moreover have "length xs \<le> totalPages xs * 20"
    by (simp add: totalPages_def RULES_PER_PAGE_def)
  ultimately show ?thesis
    by (simp add: pages_concat_aux del: upt_Suc)
qed

lemma page_full:
  "1 \<le> p \<Longrightarrow> p < totalPages xs \<Longrightarrow> length (pageRules p xs) = 20"
  unfolding pageRules_eq totalPages_def RULES_PER_PAGE_def
  by simp

lemma page_bound: "length (pageRules p xs) \<le> 20"
  unfolding pageRules_eq by simp

lemma viewer_filter_and_pages_aux:
  "\<forall>v\<in>set rules. viewerRecord v \<Longrightarrow>
   applyFilters cats prios sv rules = Inr (filter (spec_visible cats prios sv) rules)"
  unfolding applyFilters_def
  by (rule filterRules_filter) (simp add: matchesRule_spec)

text \<open>
  C8: on a catalogue of records with string \<open>name\<close>, \<open>message\<close>, \<open>description\<close>,
  \<open>category\<close>, \<open>categoryName\<close> and numeric \<open>priority\<close>, \<open>applyFilters\<close> returns, in catalogue
  order, exactly the rules the specification's condition selects; the pages of 20 cut
  from the result, page 1 to the last, put together give the result back, and every
  page before the last holds exactly 20 records.
\<close>

theorem viewer_filter_and_pages:
  assumes "\<forall>v\<in>set rules. viewerRecord v"
  shows "applyFilters cats prios sv rules = Inr (filter (spec_visible cats prios sv) rules)
    \<and> concat (map (\<lambda>p. pageRules p (filter (spec_visible cats prios sv) rules))
               [1..<Suc (totalPages (filter (spec_visible cats prios sv) rules))])
        = filter (spec_visible cats prios sv) rules
    \<and> (\<forall>p. 1 \<le> p \<and> p < totalPages (filter (spec_visible cats prios sv) rules) \<longrightarrow>
           length (pageRules p (filter (spec_visible cats prios sv) rules)) = RULES_PER_PAGE)
    \<and> (\<forall>p. length (pageRules p (filter (spec_visible cats prios sv) rules)) \<le> RULES_PER_PAGE)"
proof -
  have "applyFilters cats prios sv rules = Inr (filter (spec_visible cats prios sv) rules)"
    using assms by (rule viewer_filter_and_pages_aux)
  then show ?thesis
    by (simp add: pages_cover page_full page_bound RULES_PER_PAGE_def del: upt_Suc)
qed

theorem viewer_filter_and_pages_witness:
  "applyFilters [''design''] [''3''] '' FOO ''
     [JObj [(''name'', JStr ''FooRule''), (''category'', JStr ''design''),
            (''categoryName'', JStr ''Design''), (''message'', JStr ''m''),
            (''description'', JStr ''d''), (''priority'', JNum 3)],
      JObj [(''name'', JStr ''Bar''), (''category'', JStr ''design''),
            (''categoryName'', JStr ''Design''), (''message'', JStr ''a foo''),
            (''description'', JStr ''d''), (''priority'', JNum 2)]]
   = Inr [JObj [(''name'', JStr ''FooRule''), (''category'', JStr ''design''),
                (''categoryName'', JStr ''Design''), (''message'', JStr ''m''),
                (''description'', JStr ''d''), (''priority'', JNum 3)]]"
proof -
  have h: "\<forall>v\<in>set
     [JObj [(''name'', JStr ''FooRule''), (''category'', JStr ''design''),
            (''categoryName'', JStr ''Design''), (''message'', JStr ''m''),
            (''description'', JStr ''d''), (''priority'', JNum 3)],
      JObj [(''name'', JStr ''Bar''), (''category'', JStr ''design''),
            (''categoryName'', JStr ''Design''), (''message'', JStr ''a foo''),
            (''description'', JStr ''d''), (''priority'', JNum 2)]]. viewerRecord v"
    by code_simp
  have f: "filter (spec_visible [''design''] [''3''] '' FOO '')
     [JObj [(''name'', JStr ''FooRule''), (''category'', JStr ''design''),
            (''categoryName'', JStr ''Design''), (''message'', JStr ''m''),
            (''description'', JStr ''d''), (''priority'', JNum 3)],
      JObj [(''name'', JStr ''Bar''), (''category'', JStr ''design''),
            (''categoryName'', JStr ''Design''), (''message'', JStr ''a foo''),
            (''description'', JStr ''d''), (''priority'', JNum 2)]]
   = [JObj [(''name'', JStr ''FooRule''), (''category'', JStr ''design''),
            (''categoryName'', JStr ''Design''), (''message'', JStr ''m''),
            (''description'', JStr ''d''), (''priority'', JNum 3)]]"
    by code_simp
  from viewer_filter_and_pages [OF h, of "[''design'']" "[''3'']" "'' FOO ''"]
  show ?thesis
    unfolding f by (rule conjunct1)
qed

lemma ruleFields_keys:
  "map fst (ruleFields r) =
     [''name'', ''category'', ''categoryName'', ''since'', ''message'', ''ruleClass'',
      ''externalInfoUrl'', ''description'', ''priority'', ''examples'']
     @ (if properties r \<noteq> [] then [''properties''] else [])
     @ (if maxLangVersion r \<noteq> [] then [''maxLanguageVersion''] else [])
     @ (if minLangVersion r \<noteq> [] then [''minLanguageVersion''] else [])"
  by (simp add: ruleFields_def)

lemma ruleFields_fixed:
  "map_of (ruleFields r) ''name'' = Some (JStr (name r))"
  "map_of (ruleFields r) ''category'' = Some (JStr (category r))"
  "map_of (ruleFields r) ''categoryName'' = Some (JStr (categoryName r))"
  "map_of (ruleFields r) ''since'' = Some (JStr (since r))"
  "map_of (ruleFields r) ''message'' = Some (JStr (message r))"
  "map_of (ruleFields r) ''ruleClass'' = Some (JStr (ruleClass r))"
  "map_of (ruleFields r) ''externalInfoUrl'' = Some (JStr (externalInfoUrl r))"
  "map_of (ruleFields r) ''description'' = Some (JStr (description r))"
  "map_of (ruleFields r) ''priority'' = Some (JNum (priority r))"
  "map_of (ruleFields r) ''examples'' = Some (JArr (map JStr (examples r)))"
  by (simp_all add: ruleFields_def)

lemma ruleFields_sparse:
  "map_of (ruleFields r) ''properties'' =
     (if properties r \<noteq> [] then Some (JArr (map propertyObject (properties r))) else None)"
  "map_of (ruleFields r) ''maxLanguageVersion'' =
     (if maxLangVersion r \<noteq> [] then Some (JStr (maxLangVersion r)) else None)"
  "map_of (ruleFields r) ''minLanguageVersion'' =
     (if minLangVersion r \<noteq> [] then Some (JStr (minLangVersion r)) else None)"
  by (simp_all add: ruleFields_def)

lemma viewerRecord_ruleObject: "viewerRecord (ruleObject r)"
  by (simp add: viewerRecord_def ruleObject_def strField_def numField_def getProp_def
      ruleFields_fixed)

lemma attrSearch_absent: "attrSearch k attrs = None \<Longrightarrow> extractAttr attrs k = []"
  by (simp add: extractAttr_def)

lemma sourceless_fields_empty:
  assumes "ruleOfBlock cat rn (attrs, body) = Some r"
  shows "attrSearch ''since'' attrs = None \<longrightarrow> since r = []"
    and "attrSearch ''message'' attrs = None \<longrightarrow> message r = []"
    and "attrSearch ''class'' attrs = None \<longrightarrow> ruleClass r = []"
    and "attrSearch ''externalInfoUrl'' attrs = None \<longrightarrow> externalInfoUrl r = []"
    and "\<not> containsCI ''<description'' body \<longrightarrow> description r = []"
  using assms extractFirstElement_absent [of "''description''" body]
  by (auto simp: ruleOfBlock_def attrSearch_absent split: if_splits)

text \<open>
  C10: the object emitted for a rule has the ten fields \<open>name\<close>, \<open>category\<close>,
  \<open>categoryName\<close>, \<open>since\<close>, \<open>message\<close>, \<open>ruleClass\<close>, \<open>externalInfoUrl\<close>, \<open>description\<close>,
  \<open>priority\<close>, \<open>examples\<close> in every case, the strings among them empty when the source has
  no such attribute or element, and \<open>examples\<close> an array of strings; \<open>properties\<close>,
  \<open>maxLanguageVersion\<close> and \<open>minLanguageVersion\<close> are fields exactly when their value is
  not empty. The Viewer's filter therefore runs over the emitted records without a
  \<open>TypeError\<close>, for every filter state.
\<close>

theorem emitted_record_fields:
  assumes "r \<in> set (parseXmlFile xml cat)"
  shows "map_of (ruleFields r) ''name'' = Some (JStr (name r))
    \<and> map_of (ruleFields r) ''since'' = Some (JStr (since r))
    \<and> map_of (ruleFields r) ''message'' = Some (JStr (message r))
    \<and> map_of (ruleFields r) ''ruleClass'' = Some (JStr (ruleClass r))
    \<and> map_of (ruleFields r) ''externalInfoUrl'' = Some (JStr (externalInfoUrl r))
    \<and> map_of (ruleFields r) ''description'' = Some (JStr (description r))
    \<and> map_of (ruleFields r) ''examples'' = Some (JArr (map JStr (examples r)))
    \<and> (\<exists>attrs body. (attrs, body) \<in> set (ruleBlocks xml) \<and>
          (attrSearch ''since'' attrs = None \<longrightarrow> since r = []) \<and>
          (attrSearch ''message'' attrs = None \<longrightarrow> message r = []) \<and>
          (attrSearch ''class'' attrs = None \<longrightarrow> ruleClass r = []) \<and>
          (attrSearch ''externalInfoUrl'' attrs = None \<longrightarrow> externalInfoUrl r = []) \<and>
          (\<not> containsCI ''<description'' body \<longrightarrow> description r = []))
    \<and> map fst (ruleFields r) =
         [''name'', ''category'', ''categoryName'', ''since'', ''message'', ''ruleClass'',
          ''externalInfoUrl'', ''description'', ''priority'', ''examples'']
         @ (if properties r \<noteq> [] then [''properties''] else [])
         @ (if maxLangVersion r \<noteq> [] then [''maxLanguageVersion''] else [])
         @ (if minLangVersion r \<noteq> [] then [''minLanguageVersion''] else [])
    \<and> (\<exists>shown. applyFilters cats prios sv (map ruleObject (parseXmlFile xml cat)) = Inr shown)"
proof -
  from assms obtain attrs body
    where blk: "(attrs, body) \<in> set (ruleBlocks xml)"
      and emit: "ruleOfBlock cat (case rulesetSearch xml of Some v \<Rightarrow> v | None \<Rightarrow> cat)
                   (attrs, body) = Some r"
    unfolding parseXmlFile_blocks by auto
  have src: "\<exists>attrs body. (attrs, body) \<in> set (ruleBlocks xml) \<and>
          (attrSearch ''since'' attrs = None \<longrightarrow> since r = []) \<and>
          (attrSearch ''message'' attrs = None \<longrightarrow> message r = []) \<and>
          (attrSearch ''class'' attrs = None \<longrightarrow> ruleClass r = []) \<and>
          (attrSearch ''externalInfoUrl'' attrs = None \<longrightarrow> externalInfoUrl r = []) \<and>
          (\<not> containsCI ''<description'' body \<longrightarrow> description r = [])"
    by (intro exI [of _ attrs] exI [of _ body] conjI)
       (rule blk sourceless_fields_empty [OF emit])+
  have "\<forall>v\<in>set (map ruleObject (parseXmlFile xml cat)). viewerRecord v"
    by (simp add: viewerRecord_ruleObject)
  then have run: "\<exists>shown. applyFilters cats prios sv (map ruleObject (parseXmlFile xml cat))
      = Inr shown"
    using viewer_filter_and_pages_aux by blast
  show ?thesis
    using src run by (simp add: ruleFields_fixed ruleFields_keys)
qed

theorem emitted_record_fields_witness:
  \<open>\<lparr> name = ''A'', category = ''design'', categoryName = ''design'', since = [],
      message = [], ruleClass = [], externalInfoUrl = [], description = [], priority = 3,
      examples = [], properties = [], maxLangVersion = [], minLangVersion = [] \<rparr>
     \<in> set (parseXmlFile ''<rule name="A"></rule>'' ''design'')
   \<and> map fst (ruleFields \<lparr> name = ''A'', category = ''design'', categoryName = ''design'',
      since = [], message = [], ruleClass = [], externalInfoUrl = [], description = [],
      priority = 3, examples = [], properties = [], maxLangVersion = [],
      minLangVersion = [] \<rparr>)
     = [''name'', ''category'', ''categoryName'', ''since'', ''message'', ''ruleClass'',
        ''externalInfoUrl'', ''description'', ''priority'', ''examples'']\<close>
proof -
  have h: \<open>\<lparr> name = ''A'', category = ''design'', categoryName = ''design'', since = [],
      message = [], ruleClass = [], externalInfoUrl = [], description = [], priority = 3,
      examples = [], properties = [], maxLangVersion = [], minLangVersion = [] \<rparr>
     \<in> set (parseXmlFile ''<rule name="A"></rule>'' ''design'')\<close>
    by code_simp
  from emitted_record_fields [OF h] h show ?thesis
    by simp
qed

section \<open>Reading back what \<open>JSON.stringify\<close> wrote\<close>

subsection \<open>Numbers\<close>

lemma digitChar_props:
  assumes "d < 10"
  shows "isDecDigit (digitChar d)" and "digitOf (digitChar d) = Some d"
    and "digitChar d = CHR ''0'' \<longleftrightarrow> d = 0"
proof -
  from assms have "d \<in> {0, 1, 2, 3, 4, 5, 6, 7, 8, 9}" by auto
  then show "isDecDigit (digitChar d)" and "digitOf (digitChar d) = Some d"
    and "digitChar d = CHR ''0'' \<longleftrightarrow> d = 0"
    by (auto simp: digitChar_def isDecDigit_def digitOf_def)
qed

lemma digitsValue_snoc:
  "digitsValue r (xs @ [c]) = digitsValue r xs * r + (case digitOf c of Some d \<Rightarrow> d | None \<Rightarrow> 0)"
  by (simp add: digitsValue_def)

lemma showNat_digits: "list_all isDecDigit (showNat n)"
proof (induction n rule: showNat.induct)
  case (1 n)
  then show ?case
    by (subst showNat.simps) (auto simp: digitChar_props)
qed

lemma showNat_value: "digitsValue 10 (showNat n) = n"
proof (induction n rule: showNat.induct)
  case (1 n)
  show ?case
  proof (cases "n < 10")
    case True
    then show ?thesis
      by (subst showNat.simps) (simp add: digitsValue_def digitChar_props)
  next
    case False
    with 1 show ?thesis
      by (subst showNat.simps) (simp add: digitsValue_snoc digitChar_props)
  qed
qed

lemma showNat_Cons: "\<exists>d ds. showNat n = d # ds \<and> isDecDigit d \<and> (d = CHR ''0'' \<longrightarrow> n = 0 \<and> ds = [])"
proof (induction n rule: showNat.induct)
  case (1 n)
  show ?case
  proof (cases "n < 10")
    case True
    then show ?thesis
      by (subst showNat.simps) (simp add: digitChar_props)
  next
    case False
    with 1 obtain d ds where ih: "showNat (n div 10) = d # ds" "isDecDigit d"
      "d = CHR ''0'' \<longrightarrow> n div 10 = 0 \<and> ds = []"
      by blast
    from False have "n div 10 \<noteq> 0" by simp
    with ih have "d \<noteq> CHR ''0''" by blast
    with ih False show ?thesis
      by (subst showNat.simps) simp
  qed
qed

lemma takeWhile_digits:
  "list_all isDecDigit ds \<Longrightarrow> sepAfter rest \<Longrightarrow>
   takeWhile isDecDigit (ds @ rest) = ds \<and> dropWhile isDecDigit (ds @ rest) = rest"
  by (induction ds) (auto simp: sepAfter_def split: list.splits)

lemma parseNumber_digits:
  assumes d: "isDecDigit d" and ds: "list_all isDecDigit ds" and sep: "sepAfter rest"
    and z: "d = CHR ''0'' \<longrightarrow> ds = []"
  shows "parseNumber (d # ds @ rest) = Inr (JNum (int (digitsValue 10 (d # ds))), rest)"
    and "parseNumber (CHR ''-'' # d # ds @ rest)
          = Inr (JNum (- int (digitsValue 10 (d # ds))), rest)"
proof -
  have nm: "d \<noteq> CHR ''-''"
    using d by (auto simp: isDecDigit_def)
  have tw: "takeWhile isDecDigit (ds @ rest) = ds" "dropWhile isDecDigit (ds @ rest) = rest"
    using takeWhile_digits [OF ds sep] by simp_all
  have hd: "\<not> (rest \<noteq> [] \<and> hd rest \<in> set ''.eE'')"
    using sep by (cases rest) (auto simp: sepAfter_def)
  show "parseNumber (d # ds @ rest) = Inr (JNum (int (digitsValue 10 (d # ds))), rest)"
  proof (cases "d = CHR ''0''")
    case True
    with z have "ds = []" by simp
    then show ?thesis
      unfolding parseNumber_def Let_def using d hd True by simp
  next
    case False
    then show ?thesis
      unfolding parseNumber_def Let_def using d hd nm
      by (simp add: tw del: dropWhile_eq_Nil_conv)
  qed
  show "parseNumber (CHR ''-'' # d # ds @ rest)
          = Inr (JNum (- int (digitsValue 10 (d # ds))), rest)"
  proof (cases "d = CHR ''0''")
    case True
    with z have "ds = []" by simp
    then show ?thesis
      unfolding parseNumber_def Let_def using d hd True by simp
  next
    case False
    then show ?thesis
      unfolding parseNumber_def Let_def using d hd
      by (simp add: tw del: dropWhile_eq_Nil_conv)
  qed
qed

lemma parseNumber_showInt:
  assumes "sepAfter rest"
  shows "parseNumber (showInt i @ rest) = Inr (JNum i, rest)"
proof -
  define n where "n = (if i < 0 then nat (- i) else nat i)"
  obtain d ds where s: "showNat n = d # ds" and d: "isDecDigit d"
    and z: "d = CHR ''0'' \<longrightarrow> n = 0 \<and> ds = []"
    using showNat_Cons by blast
  have ds: "list_all isDecDigit ds"
    using showNat_digits [of n] unfolding s by simp
  have val: "digitsValue 10 (d # ds) = n"
    using showNat_value [of n] unfolding s .
  from z have z': "d = CHR ''0'' \<longrightarrow> ds = []" by simp
  note pn = parseNumber_digits [OF d ds assms z', unfolded val]
  show ?thesis
  proof (cases "i < 0")
    case True
    then have "showInt i = CHR ''-'' # d # ds"
      using s by (simp add: showInt_def n_def)
    with pn(2) True show ?thesis by (simp add: n_def)
  next
    case False
    then have "showInt i = d # ds"
      using s by (simp add: showInt_def n_def)
    with pn(1) False show ?thesis by (simp add: n_def)
  qed
qed

lemma showInt_hd:
  "\<exists>c cs. showInt i = c # cs \<and> (c = CHR ''-'' \<or> isDecDigit c)"
  using showNat_Cons [of "nat i"] by (auto simp: showInt_def)

subsection \<open>Strings\<close>

lemma escaped_chars: "list_all (\<lambda>c. map_of jsonEscapes c \<noteq> None) (dq # bs # controlChars)"
  by code_simp

lemma unicode_escapes:
  "list_all (\<lambda>m. take 2 (snd m) = [bs, CHR ''u''] \<and> length (snd m) = 6 \<and>
                 unicodeEscape (drop 2 (snd m)) = Inr (fst m))
     (drop 7 jsonEscapes)"
  by code_simp

lemma simple_escapes:
  "list_all (\<lambda>m. length (snd m) = 2 \<and> hd (snd m) = bs \<and> snd m ! 1 \<noteq> CHR ''u'' \<and>
                 map_of simpleEscapes (snd m ! 1) = Some (fst m))
     (take 7 jsonEscapes)"
  by code_simp

lemma parseChars_plain:
  assumes "map_of jsonEscapes c = None"
  shows "parseChars (c # tail) =
     (case parseChars tail of Inl err \<Rightarrow> Inl err | Inr (str, rest) \<Rightarrow> Inr (c # str, rest))"
proof -
  from escaped_chars assms have "c \<noteq> dq" "c \<noteq> bs" "c \<notin> set controlChars"
    by (auto simp: list_all_iff)
  then show ?thesis by simp
qed

lemma parseChars_escaped:
  assumes "map_of jsonEscapes c = Some e"
  shows "parseChars (e @ tail) =
     (case parseChars tail of Inl err \<Rightarrow> Inl err | Inr (str, rest) \<Rightarrow> Inr (c # str, rest))"
proof -
  from assms have "(c, e) \<in> set jsonEscapes"
    by (rule map_of_SomeD)
  then have "(c, e) \<in> set (take 7 jsonEscapes) \<or> (c, e) \<in> set (drop 7 jsonEscapes)"
    using set_append [of "take 7 jsonEscapes" "drop 7 jsonEscapes"] by simp
  then show ?thesis
  proof
    assume "(c, e) \<in> set (take 7 jsonEscapes)"
    with simple_escapes have "length e = 2" "hd e = bs" "e ! 1 \<noteq> CHR ''u''"
      "map_of simpleEscapes (e ! 1) = Some c"
      by (auto simp: list_all_iff)
    moreover from this obtain x where "e = [bs, x]"
      by (cases e; cases "tl e") auto
    ultimately show ?thesis
      by (simp add: bs_def dq_def)
  next
    assume "(c, e) \<in> set (drop 7 jsonEscapes)"
    with unicode_escapes have u: "take 2 e = [bs, CHR ''u'']" "length e = 6"
      "unicodeEscape (drop 2 e) = Inr c"
      by (auto simp: list_all_iff)
    then obtain hs where e: "e = bs # CHR ''u'' # hs" and hs: "length hs = 4"
      by (cases e; cases "tl e") auto
    from u(3) have "unicodeEscape hs = Inr c" unfolding e by simp
    with hs show ?thesis
      unfolding e by (simp add: bs_def dq_def)
  qed
qed

lemma parseChars_quoted:
  "parseChars (concat (map escapeChar s) @ dq # rest) = Inr (s, rest)"
proof (induction s)
  case Nil
  show ?case by simp
next
  case (Cons c s)
  show ?case
  proof (cases "map_of jsonEscapes c")
    case None
    then have "escapeChar c = [c]" by (simp add: escapeChar_def)
    with Cons None show ?thesis
      using parseChars_plain [OF None] by simp
  next
    case (Some e)
    then have "escapeChar c = e" by (simp add: escapeChar_def)
    with Cons show ?thesis
      using parseChars_escaped [OF Some] by simp
  qed
qed

subsection \<open>Values\<close>

lemma skipWs_wsOnly: "wsOnly ws \<Longrightarrow> skipWs (ws @ s) = skipWs s"
  by (induction ws) (auto simp: wsOnly_def skipWs_def)

lemma skipWs_start: "\<not> isJsonWs c \<Longrightarrow> skipWs (c # cs) = c # cs"
  by (simp add: skipWs_def)

lemma wsOnly_simps [simp]:
  "wsOnly []" "wsOnly (nl # ws) = wsOnly ws" "wsOnly (ws @ ws') \<longleftrightarrow> wsOnly ws \<and> wsOnly ws'"
  "wsOnly gap"
  by (auto simp: wsOnly_def isJsonWs_def nl_def gap_def)

lemma not_ws [simp]:
  "\<not> isJsonWs (CHR ''['')" "\<not> isJsonWs (CHR '']'')" "\<not> isJsonWs (CHR ''{'')"
  "\<not> isJsonWs (CHR ''}'')" "\<not> isJsonWs (CHR '','')" "\<not> isJsonWs (CHR '':'')"
  "\<not> isJsonWs dq" "\<not> isJsonWs (CHR ''-'')" "\<not> isJsonWs (CHR ''n'')"
  "\<not> isJsonWs (CHR ''t'')" "\<not> isJsonWs (CHR ''f'')"
  by (simp_all add: isJsonWs_def dq_def)

lemma dq_neq [simp]:
  "dq \<noteq> CHR ''[''" "dq \<noteq> CHR '']''" "dq \<noteq> CHR ''{''" "dq \<noteq> CHR ''}''"
  "dq \<noteq> CHR ''-''" "\<not> isDecDigit dq"
  by (simp_all add: dq_def isDecDigit_def)

lemma digit_not_ws: "isDecDigit c \<Longrightarrow> \<not> isJsonWs c"
  by (auto simp: isDecDigit_def isJsonWs_def)

lemma digit_not_punct:
  "isDecDigit c \<Longrightarrow> c \<noteq> CHR ''['' \<and> c \<noteq> CHR '']'' \<and> c \<noteq> CHR ''{'' \<and> c \<noteq> CHR ''}'' \<and> c \<noteq> dq"
  by (auto simp: isDecDigit_def dq_def)

lemma sepAfter_simps [simp]:
  "sepAfter []" "sepAfter (CHR '','' # s)" "sepAfter (CHR '']'' # s)" "sepAfter (CHR ''}'' # s)"
  "sepAfter (nl # s)"
  by (simp_all add: sepAfter_def isDecDigit_def nl_def)

lemma sepAfter_ws: "wsOnly ws \<Longrightarrow> sepAfter s \<Longrightarrow> sepAfter (ws @ s)"
  by (cases ws) (auto simp: sepAfter_def wsOnly_def isJsonWs_def isDecDigit_def)

lemma parseValue_null:
  "wsOnly ws \<Longrightarrow> parseValue (Suc f) (ws @ ''null'' @ rest) = Inr (JNull, rest)"
  by (simp add: skipWs_wsOnly skipWs_start parseLiteral_def isDecDigit_def dq_def)

lemma parseValue_true:
  "wsOnly ws \<Longrightarrow> parseValue (Suc f) (ws @ ''true'' @ rest) = Inr (JBool True, rest)"
  by (simp add: skipWs_wsOnly skipWs_start parseLiteral_def isDecDigit_def dq_def)

lemma parseValue_false:
  "wsOnly ws \<Longrightarrow> parseValue (Suc f) (ws @ ''false'' @ rest) = Inr (JBool False, rest)"
  by (simp add: skipWs_wsOnly skipWs_start parseLiteral_def isDecDigit_def dq_def)

lemma parseValue_num:
  assumes "wsOnly ws" and "sepAfter rest"
  shows "parseValue (Suc f) (ws @ showInt n @ rest) = Inr (JNum n, rest)"
proof -
  obtain c cs where s: "showInt n = c # cs" and c: "c = CHR ''-'' \<or> isDecDigit c"
    using showInt_hd by blast
  from c have nws: "\<not> isJsonWs c" and np: "c \<noteq> CHR ''[''" "c \<noteq> CHR ''{''" "c \<noteq> dq"
    using digit_not_ws digit_not_punct by (auto simp: dq_def)
  have "parseValue (Suc f) (ws @ showInt n @ rest) = parseNumber (c # cs @ rest)"
    using assms(1) nws np c by (auto simp: s skipWs_wsOnly skipWs_start)
  also have "\<dots> = Inr (JNum n, rest)"
    using parseNumber_showInt [OF assms(2), of n] by (simp add: s)
  finally show ?thesis .
qed

lemma parseValue_str:
  assumes "wsOnly ws"
  shows "parseValue (Suc f) (ws @ quoteJSON s @ rest) = Inr (JStr s, rest)"
  using assms parseChars_quoted [of s rest]
  by (simp add: quoteJSON_def skipWs_wsOnly skipWs_start)

lemma parseValue_empty_arr:
  "wsOnly ws \<Longrightarrow> parseValue (Suc f) (ws @ ''[]'' @ rest) = Inr (JArr [], rest)"
  by (simp add: skipWs_wsOnly skipWs_start)

lemma parseValue_empty_obj:
  "wsOnly ws \<Longrightarrow> parseValue (Suc f) (ws @ ''{}'' @ rest) = Inr (JObj [], rest)"
  by (simp add: skipWs_wsOnly skipWs_start)

lemma parseValue_arr:
  assumes "wsOnly ws" and "wsOnly ws2" and "\<not> isJsonWs c" and "c \<noteq> CHR '']''"
  shows "parseValue (Suc f) (ws @ ''['' @ ws2 @ c # cs) =
     (case parseElems f (c # cs) of
        Inl err \<Rightarrow> Inl err
      | Inr (vs, rest) \<Rightarrow> Inr (JArr vs, rest))"
  using assms by (simp add: skipWs_wsOnly skipWs_start)

lemma parseValue_obj:
  assumes "wsOnly ws" and "wsOnly ws2" and "\<not> isJsonWs c" and "c \<noteq> CHR ''}''"
  shows "parseValue (Suc f) (ws @ ''{'' @ ws2 @ c # cs) =
     (case parseMembers f (c # cs) of
        Inl err \<Rightarrow> Inl err
      | Inr (ms, rest) \<Rightarrow>
          (case objectOf ms of Inl err \<Rightarrow> Inl err | Inr obj \<Rightarrow> Inr (obj, rest)))"
  using assms by (simp add: skipWs_wsOnly skipWs_start)

lemma parseElems_last:
  assumes "parseValue f s = Inr (v, r)" and "skipWs r = CHR '']'' # cs"
  shows "parseElems (Suc f) s = Inr ([v], cs)"
  using assms by simp

lemma parseElems_more:
  assumes "parseValue f s = Inr (v, r)" and "skipWs r = CHR '','' # cs"
    and "parseElems f cs = Inr (vs, rest)"
  shows "parseElems (Suc f) s = Inr (v # vs, rest)"
  using assms by simp

lemma parseMembers_last:
  assumes "skipWs s = dq # qs" and "parseChars qs = Inr (k, r1)" and "skipWs r1 = CHR '':'' # r2"
    and "parseValue f r2 = Inr (v, r3)" and "skipWs r3 = CHR ''}'' # cs"
  shows "parseMembers (Suc f) s = Inr ([(k, v)], cs)"
  using assms by simp

lemma parseMembers_more:
  assumes "skipWs s = dq # qs" and "parseChars qs = Inr (k, r1)" and "skipWs r1 = CHR '':'' # r2"
    and "parseValue f r2 = Inr (v, r3)" and "skipWs r3 = CHR '','' # cs"
    and "parseMembers f cs = Inr (ms, rest)"
  shows "parseMembers (Suc f) s = Inr ((k, v) # ms, rest)"
  using assms by simp

lemma renderValue_start:
  "\<exists>c cs. renderValue ind v = c # cs \<and> \<not> isJsonWs c \<and> c \<noteq> CHR '']'' \<and> c \<noteq> CHR ''}''"
proof (cases v)
  case (JNum n)
  then show ?thesis
    using showInt_hd [of n] digit_not_ws digit_not_punct by auto
qed (auto simp: quoteJSON_def)

lemma update_fresh: "k \<notin> fst ` set al \<Longrightarrow> AList.update k v al = al @ [(k, v)]"
  by (induction al) auto

lemma foldl_update_distinct:
  "distinct (map fst (acc @ kvs)) \<Longrightarrow>
   foldl (\<lambda>obj m. AList.update (fst m) (snd m) obj) acc kvs = acc @ kvs"
proof (induction kvs arbitrary: acc)
  case Nil
  show ?case by simp
next
  case (Cons m kvs)
  from Cons.prems have "fst m \<notin> fst ` set acc" by auto
  then have "AList.update (fst m) (snd m) acc = acc @ [m]"
    by (simp add: update_fresh)
  moreover from Cons.prems have "distinct (map fst ((acc @ [m]) @ kvs))" by simp
  ultimately show ?case
    using Cons.IH [of "acc @ [m]"] by simp
qed

lemma objectOf_wf:
  assumes "distinct (map fst kvs)" and "list_all (\<lambda>m. \<not> isArrayIndex (fst m)) kvs"
  shows "objectOf kvs = Inr (JObj kvs)"
  using assms foldl_update_distinct [of "[]" kvs]
  by (simp add: objectOf_def list_ex_iff list_all_iff)

lemma renderElems_start:
  "xs \<noteq> [] \<Longrightarrow> \<exists>c cs. renderElems ind xs = c # cs \<and> \<not> isJsonWs c \<and> c \<noteq> CHR '']''"
proof (cases xs)
  case (Cons x xs')
  obtain c cs where "renderValue ind x = c # cs" "\<not> isJsonWs c" "c \<noteq> CHR '']''"
    using renderValue_start by blast
  with Cons show ?thesis by (cases xs') auto
qed simp

lemma renderMembers_start:
  "kvs \<noteq> [] \<Longrightarrow> \<exists>cs. renderMembers ind kvs = dq # cs"
proof (cases kvs)
  case (Cons m kvs')
  then show ?thesis
    by (cases m; cases kvs') (auto simp: quoteJSON_def)
qed simp

lemma renderValue_nonempty: "0 < length (renderValue ind v)"
  using renderValue_start [of ind v] by auto

lemma parse_rendered:
  shows "wfJson v \<Longrightarrow> wsOnly ind \<Longrightarrow> wsOnly ws \<Longrightarrow> sepAfter rest \<Longrightarrow>
         2 * length (renderValue ind v) < f \<Longrightarrow>
         parseValue f (ws @ renderValue ind v @ rest) = Inr (v, rest)"
    and "xs \<noteq> [] \<Longrightarrow> list_all wfJson xs \<Longrightarrow> wsOnly ind \<Longrightarrow> wsOnly ws \<Longrightarrow> wsOnly ws' \<Longrightarrow>
         2 * length (renderElems ind xs) + 1 < f \<Longrightarrow>
         parseElems f (ws @ renderElems ind xs @ ws' @ CHR '']'' # rest) = Inr (xs, rest)"
    and "kvs \<noteq> [] \<Longrightarrow> list_all (\<lambda>m. wfJson (snd m)) kvs \<Longrightarrow> wsOnly ind \<Longrightarrow> wsOnly ws \<Longrightarrow>
         wsOnly ws' \<Longrightarrow> 2 * length (renderMembers ind kvs) + 1 < f \<Longrightarrow>
         parseMembers f (ws @ renderMembers ind kvs @ ws' @ CHR ''}'' # rest) = Inr (kvs, rest)"
proof (induction ind v and ind xs and ind kvs
    arbitrary: f ws rest and f ws ws' rest and f ws ws' rest
    rule: renderValue_renderElems_renderMembers.induct)
  case (1 ind)
  then obtain f' where "f = Suc f'" by (cases f) auto
  with 1 show ?case using parseValue_null [of ws f' rest] by simp
next
  case (2 ind b)
  then obtain f' where "f = Suc f'" by (cases f) auto
  with 2 show ?case
    using parseValue_true [of ws f' rest] parseValue_false [of ws f' rest] by simp
next
  case (3 ind n)
  then obtain f' where "f = Suc f'" by (cases f) auto
  with 3 show ?case using parseValue_num [of ws rest f' n] by simp
next
  case (4 ind s)
  then obtain f' where "f = Suc f'" by (cases f) auto
  with 4 show ?case using parseValue_str [of ws f' s rest] by simp
next
  case (5 ind xs)
  from "5.prems" obtain f' where f: "f = Suc f'" by (cases f) auto
  show ?case
  proof (cases "xs = []")
    case True
    with "5.prems" show ?thesis
      using parseValue_empty_arr [of ws f' rest] by (simp add: f)
  next
    case False
    obtain c cs where e: "renderElems (ind @ gap) xs = c # cs" and c: "\<not> isJsonWs c" "c \<noteq> CHR '']''"
      using renderElems_start [OF False] by blast
    have fuel: "2 * length (renderElems (ind @ gap) xs) + 1 < f'"
      using "5.prems"(5) False by (simp add: f)
    have "parseElems f' ([] @ renderElems (ind @ gap) xs @ (nl # ind) @ CHR '']'' # rest)
        = Inr (xs, rest)"
      using "5.prems" False fuel by (intro "5.IH") simp_all
    then have pe: "parseElems f' (c # cs @ nl # ind @ CHR '']'' # rest) = Inr (xs, rest)"
      by (simp add: e)
    have "ws @ renderValue ind (JArr xs) @ rest
        = ws @ ''['' @ (nl # ind @ gap) @ c # (cs @ nl # ind @ CHR '']'' # rest)"
      using False by (simp add: e)
    then show ?thesis
      using parseValue_arr [of ws "nl # ind @ gap" c f' "cs @ nl # ind @ CHR '']'' # rest"]
        "5.prems" c pe
      by (simp add: f)
  qed
next
  case (6 ind kvs)
  from "6.prems" obtain f' where f: "f = Suc f'" by (cases f) auto
  show ?case
  proof (cases "kvs = []")
    case True
    with "6.prems" show ?thesis
      using parseValue_empty_obj [of ws f' rest] by (simp add: f)
  next
    case False
    obtain cs where e: "renderMembers (ind @ gap) kvs = dq # cs"
      using renderMembers_start [OF False] by blast
    have fuel: "2 * length (renderMembers (ind @ gap) kvs) + 1 < f'"
      using "6.prems"(5) False by (simp add: f)
    have "parseMembers f' ([] @ renderMembers (ind @ gap) kvs @ (nl # ind) @ CHR ''}'' # rest)
        = Inr (kvs, rest)"
      using "6.prems" False fuel by (intro "6.IH") simp_all
    then have pm: "parseMembers f' (dq # cs @ nl # ind @ CHR ''}'' # rest) = Inr (kvs, rest)"
      by (simp add: e)
    have obj: "objectOf kvs = Inr (JObj kvs)"
      using "6.prems"(1) by (intro objectOf_wf) simp_all
    have "ws @ renderValue ind (JObj kvs) @ rest
        = ws @ ''{'' @ (nl # ind @ gap) @ dq # (cs @ nl # ind @ CHR ''}'' # rest)"
      using False by (simp add: e)
    then show ?thesis
      using parseValue_obj [of ws "nl # ind @ gap" dq f' "cs @ nl # ind @ CHR ''}'' # rest"]
        "6.prems" pm obj
      by (simp add: f)
  qed
next
  case (7 ind)
  then show ?case by simp
next
  case (8 ind x)
  from "8.prems" obtain f' where f: "f = Suc f'" by (cases f) auto
  have "parseValue f' (ws @ renderValue ind x @ (ws' @ CHR '']'' # rest))
      = Inr (x, ws' @ CHR '']'' # rest)"
    using "8.prems" by (intro "8.IH") (simp_all add: f sepAfter_ws)
  moreover have "skipWs (ws' @ CHR '']'' # rest) = CHR '']'' # rest"
    using "8.prems" by (simp add: skipWs_wsOnly skipWs_start)
  ultimately show ?case
    using parseElems_last [of f' "ws @ renderValue ind x @ ws' @ CHR '']'' # rest" x] 
    by (simp add: f)
next
  case (9 ind x y ys)
  from "9.prems" obtain f' where f: "f = Suc f'" by (cases f) auto
  let ?tail = "renderElems ind (y # ys) @ ws' @ CHR '']'' # rest"
  have pos: "0 < length (renderValue ind x)" by (rule renderValue_nonempty)
  have "parseValue f' (ws @ renderValue ind x @ (CHR '','' # nl # ind @ ?tail))
      = Inr (x, CHR '','' # nl # ind @ ?tail)"
    using "9.prems" by (intro "9.IH"(1)) (simp_all add: f)
  moreover have "skipWs (CHR '','' # nl # ind @ ?tail) = CHR '','' # nl # ind @ ?tail"
    by (simp add: skipWs_start)
  moreover have "parseElems f' ((nl # ind) @ renderElems ind (y # ys) @ ws' @ CHR '']'' # rest)
      = Inr (y # ys, rest)"
    using "9.prems" pos by (intro "9.IH"(2)) (simp_all add: f)
  ultimately show ?case
    using parseElems_more [of f' "ws @ renderValue ind x @ CHR '','' # nl # ind @ ?tail" x
        "CHR '','' # nl # ind @ ?tail" "nl # ind @ ?tail" "y # ys" rest]
    by (simp add: f)
next
  case (10 ind)
  then show ?case by simp
next
  case (11 ind k v)
  from "11.prems" obtain f' where f: "f = Suc f'" by (cases f) auto
  let ?tail = "ws' @ CHR ''}'' # rest"
  have s: "skipWs (ws @ renderMembers ind [(k, v)] @ ?tail)
      = dq # concat (map escapeChar k) @ dq # '': '' @ renderValue ind v @ ?tail"
    using "11.prems" by (simp add: skipWs_wsOnly skipWs_start quoteJSON_def)
  have k: "parseChars (concat (map escapeChar k) @ dq # '': '' @ renderValue ind v @ ?tail)
      = Inr (k, '': '' @ renderValue ind v @ ?tail)"
    by (rule parseChars_quoted)
  have colon: "skipWs ('': '' @ renderValue ind v @ ?tail)
      = CHR '':'' # '' '' @ renderValue ind v @ ?tail"
    by (simp add: skipWs_start)
  have v: "parseValue f' ('' '' @ renderValue ind v @ ?tail) = Inr (v, ?tail)"
    using "11.prems" by (intro "11.IH") (simp_all add: f sepAfter_ws wsOnly_def isJsonWs_def)
  have close: "skipWs ?tail = CHR ''}'' # rest"
    using "11.prems" by (simp add: skipWs_wsOnly skipWs_start)
  show ?case
    unfolding f by (rule parseMembers_last [OF s k colon v close])
next
  case (12 ind k v m ms)
  from "12.prems" obtain f' where f: "f = Suc f'" by (cases f) auto
  let ?next = "renderMembers ind (m # ms) @ ws' @ CHR ''}'' # rest"
  let ?tail = "CHR '','' # nl # ind @ ?next"
  have pos: "0 < length (renderValue ind v)" by (rule renderValue_nonempty)
  have s: "skipWs (ws @ renderMembers ind ((k, v) # m # ms) @ ws' @ CHR ''}'' # rest)
      = dq # concat (map escapeChar k) @ dq # '': '' @ renderValue ind v @ ?tail"
    using "12.prems" by (simp add: skipWs_wsOnly skipWs_start quoteJSON_def)
  have k: "parseChars (concat (map escapeChar k) @ dq # '': '' @ renderValue ind v @ ?tail)
      = Inr (k, '': '' @ renderValue ind v @ ?tail)"
    by (rule parseChars_quoted)
  have colon: "skipWs ('': '' @ renderValue ind v @ ?tail)
      = CHR '':'' # '' '' @ renderValue ind v @ ?tail"
    by (simp add: skipWs_start)
  have v: "parseValue f' ('' '' @ renderValue ind v @ ?tail) = Inr (v, ?tail)"
    using "12.prems" by (intro "12.IH"(1)) (simp_all add: f wsOnly_def isJsonWs_def)
  have comma: "skipWs ?tail = CHR '','' # nl # ind @ ?next"
    by (simp add: skipWs_start)
  have more: "parseMembers f' ((nl # ind) @ renderMembers ind (m # ms) @ ws' @ CHR ''}'' # rest)
      = Inr (m # ms, rest)"
    using "12.prems" pos by (intro "12.IH"(2)) (simp_all add: f quoteJSON_def)
  then have more': "parseMembers f' (nl # ind @ ?next) = Inr (m # ms, rest)"
    by simp
  show ?case
    unfolding f by (rule parseMembers_more [OF s k colon v comma more'])
qed

lemma JSON_parse_stringify:
  assumes "wfJson v"
  shows "JSON_parse (JSON_stringify v) = Inr v"
proof -
  have "parseValue (2 * length (renderValue [] v) + 1) ([] @ renderValue [] v @ []) = Inr (v, [])"
    using assms by (intro parse_rendered(1)) simp_all
  then show ?thesis
    by (simp add: JSON_parse_def JSON_stringify_def skipWs_def)
qed

subsection \<open>The assignment around the array\<close>

lemma render_not_space:
  "\<exists>c cs. renderValue ind v = c # cs \<and> \<not> isSpace c"
proof (cases v)
  case (JNum n)
  then show ?thesis
    using showInt_hd [of n] by (auto simp: isSpace_def isDecDigit_def)
qed (auto simp: quoteJSON_def dq_def isSpace_def)

lemma dropSemicolonTail_wrapped: "dropSemicolonTail (j @ [CHR '';'', nl]) = Some j"
  by (induction j) (auto simp: isSpace_def nl_def)

lemma moduleJson_wrapModule: "moduleJson (wrapModule (JSON_stringify v)) = JSON_stringify v"
proof -
  obtain c cs where r: "JSON_stringify v = c # cs" and c: "\<not> isSpace c"
    using render_not_space [of "[]" v] unfolding JSON_stringify_def by blast
  have "stripPrefix (wrapModule (JSON_stringify v)) = JSON_stringify v @ [CHR '';'', nl]"
    using c by (simp add: stripPrefix_def wrapModule_def r isSpace_def nl_def)
  then show ?thesis
    by (simp add: moduleJson_def stripSuffix_def dropSemicolonTail_wrapped)
qed

subsection \<open>The objects of the Builder\<close>

lemma letters_not_index: "\<not> isDecDigit (hd k) \<Longrightarrow> \<not> isArrayIndex k"
  by (cases k) (auto simp: isArrayIndex_def)





section \<open>Properties of the Tier Annotator\<close>

subsection \<open>What \<open>JSON.parse\<close> returns is well formed\<close>

lemma update_set: "set (AList.update k v al) \<subseteq> insert (k, v) (set al)"
  by (induction al) auto

lemma foldl_update_distinct_keys:
  "distinct (map fst acc) \<Longrightarrow>
   distinct (map fst (foldl (\<lambda>obj m. AList.update (fst m) (snd m) obj) acc ms))"
  by (induction ms arbitrary: acc) (simp_all add: distinct_update)

lemma foldl_update_set:
  "set (foldl (\<lambda>obj m. AList.update (fst m) (snd m) obj) acc ms) \<subseteq> set acc \<union> set ms"
proof (induction ms arbitrary: acc)
  case Nil
  show ?case by simp
next
  case (Cons m ms)
  have "set (AList.update (fst m) (snd m) acc) \<subseteq> insert m (set acc)"
    using update_set [of "fst m" "snd m" acc] by simp
  with Cons [of "AList.update (fst m) (snd m) acc"] show ?case by auto
qed

lemma objectOf_wfJson:
  assumes "objectOf ms = Inr obj" and "list_all (\<lambda>m. wfJson (snd m)) ms"
  shows "wfJson obj"
proof -
  let ?kvs = "foldl (\<lambda>obj m. AList.update (fst m) (snd m) obj) [] ms"
  from assms(1) have obj: "obj = JObj ?kvs" and noidx: "\<forall>m\<in>set ms. \<not> isArrayIndex (fst m)"
    by (auto simp: objectOf_def list_ex_iff split: if_splits)
  have sub: "set ?kvs \<subseteq> set ms"
    using foldl_update_set [of "[]" ms] by simp
  have "distinct (map fst ?kvs)"
    by (rule foldl_update_distinct_keys) simp
  moreover have "\<forall>m\<in>set ?kvs. \<not> isArrayIndex (fst m)"
    using sub noidx by blast
  moreover have "\<forall>m\<in>set ?kvs. wfJson (snd m)"
    using sub assms(2) by (auto simp: list_all_iff)
  ultimately show ?thesis
    by (simp add: obj list_all_iff)
qed

lemma parseNumber_wf: "parseNumber s = Inr (v, r) \<Longrightarrow> wfJson v"
  by (auto simp: parseNumber_def Let_def split: list.splits if_splits)

lemma parseLiteral_wf: "parseLiteral s = Inr (v, r) \<Longrightarrow> wfJson v"
  by (auto simp: parseLiteral_def split: option.splits)

lemma parseValue_Suc_inv:
  assumes "parseValue (Suc f) s = Inr (v, r)"
  shows "v = JArr [] \<or> v = JObj []
    \<or> (\<exists>t vs. parseElems f t = Inr (vs, r) \<and> v = JArr vs)
    \<or> (\<exists>t ms. parseMembers f t = Inr (ms, r) \<and> objectOf ms = Inr v)
    \<or> (\<exists>str. v = JStr str)
    \<or> (\<exists>t. parseNumber t = Inr (v, r))
    \<or> (\<exists>t. parseLiteral t = Inr (v, r))"
proof (cases "skipWs s")
  case Nil
  with assms show ?thesis by simp
next
  case (Cons c cs)
  note s = Cons
  consider (arr) "c = CHR ''[''" | (obj) "c \<noteq> CHR ''[''" "c = CHR ''{''"
    | (str) "c \<noteq> CHR ''[''" "c \<noteq> CHR ''{''" "c = dq"
    | (num) "c \<noteq> CHR ''[''" "c \<noteq> CHR ''{''" "c \<noteq> dq" "c = CHR ''-'' \<or> isDecDigit c"
    | (lit) "c \<noteq> CHR ''[''" "c \<noteq> CHR ''{''" "c \<noteq> dq" "\<not> (c = CHR ''-'' \<or> isDecDigit c)"
    by blast
  then show ?thesis
  proof cases
    case arr
    show ?thesis
    proof (cases "skipWs cs")
      case Nil
      with assms s arr show ?thesis by simp
    next
      case (Cons d ds)
      with assms s arr show ?thesis
        by (cases "d = CHR '']''") (auto split: sum.splits)
    qed
  next
    case obj
    show ?thesis
    proof (cases "skipWs cs")
      case Nil
      with assms s obj show ?thesis by simp
    next
      case (Cons d ds)
      with assms s obj show ?thesis
        by (cases "d = CHR ''}''") (auto split: sum.splits)
    qed
  next
    case str
    with assms s show ?thesis by (auto split: sum.splits)
  next
    case num
    with assms s have "parseNumber (c # cs) = Inr (v, r)" by simp
    then show ?thesis by blast
  next
    case lit
    with assms s have "parseLiteral (c # cs) = Inr (v, r)" by simp
    then show ?thesis by blast
  qed
qed

lemma parseElems_Suc_inv:
  assumes "parseElems (Suc f) s = Inr (vs, r)"
  shows "\<exists>v r1. parseValue f s = Inr (v, r1) \<and>
     (vs = [v] \<or> (\<exists>t vs'. parseElems f t = Inr (vs', r) \<and> vs = v # vs'))"
proof (cases "parseValue f s")
  case (Inl e)
  with assms show ?thesis by simp
next
  case (Inr p)
  obtain v r1 where p: "p = (v, r1)" by (cases p)
  show ?thesis
  proof (cases "skipWs r1")
    case Nil
    with assms Inr p show ?thesis by simp
  next
    case (Cons c cs)
    with assms Inr p show ?thesis
      by (auto split: if_splits sum.splits)
  qed
qed

lemma parseMembers_Suc_inv:
  assumes "parseMembers (Suc f) s = Inr (ms, r)"
  shows "\<exists>k v t r3. parseValue f t = Inr (v, r3) \<and>
     (ms = [(k, v)] \<or> (\<exists>t' ms'. parseMembers f t' = Inr (ms', r) \<and> ms = (k, v) # ms'))"
proof (cases "skipWs s")
  case Nil
  with assms show ?thesis by simp
next
  case (Cons q qs)
  note s = Cons
  show ?thesis
  proof (cases "parseChars qs")
    case (Inl e)
    with assms s show ?thesis by (simp split: if_splits)
  next
    case (Inr p)
    obtain k r1 where p: "p = (k, r1)" by (cases p)
    show ?thesis
    proof (cases "skipWs r1")
      case Nil
      with assms s Inr p show ?thesis by (simp split: if_splits)
    next
      case (Cons colon r2)
      note r1 = Cons
      show ?thesis
      proof (cases "parseValue f r2")
        case (Inl e)
        with assms s Inr p r1 show ?thesis by (simp split: if_splits)
      next
        case (Inr pv)
        obtain v r3 where pv: "pv = (v, r3)" by (cases pv)
        show ?thesis
        proof (cases "skipWs r3")
          case Nil
          with assms s \<open>parseChars qs = Inr p\<close> p r1 Inr pv show ?thesis
            by (simp split: if_splits)
        next
          case (Cons c cs)
          with assms s \<open>parseChars qs = Inr p\<close> p r1 Inr pv show ?thesis
            by (auto split: if_splits sum.splits)
        qed
      qed
    qed
  qed
qed

lemma parse_wf_all:
  "(\<forall>s v r. parseValue f s = Inr (v, r) \<longrightarrow> wfJson v) \<and>
   (\<forall>s vs r. parseElems f s = Inr (vs, r) \<longrightarrow> list_all wfJson vs) \<and>
   (\<forall>s ms r. parseMembers f s = Inr (ms, r) \<longrightarrow> list_all (\<lambda>m. wfJson (snd m)) ms)"
proof (induction f)
  case 0
  show ?case by simp
next
  case (Suc f)
  then have V: "\<And>s v r. parseValue f s = Inr (v, r) \<Longrightarrow> wfJson v"
    and E: "\<And>s vs r. parseElems f s = Inr (vs, r) \<Longrightarrow> list_all wfJson vs"
    and M: "\<And>s ms r. parseMembers f s = Inr (ms, r) \<Longrightarrow> list_all (\<lambda>m. wfJson (snd m)) ms"
    by blast+
  have "wfJson v" if "parseValue (Suc f) s = Inr (v, r)" for s v r
    using parseValue_Suc_inv [OF that]
    by (auto dest: E M objectOf_wfJson parseNumber_wf parseLiteral_wf)
  moreover have "list_all wfJson vs" if "parseElems (Suc f) s = Inr (vs, r)" for s vs r
    using parseElems_Suc_inv [OF that] by (auto dest: V E)
  moreover have "list_all (\<lambda>m. wfJson (snd m)) ms"
    if "parseMembers (Suc f) s = Inr (ms, r)" for s ms r
    using parseMembers_Suc_inv [OF that] by (auto dest: V M)
  ultimately show ?case by blast
qed

lemma JSON_parse_wf:
  assumes "JSON_parse s = Inr v"
  shows "wfJson v"
proof -
  from assms obtain r where "parseValue (2 * length s + 1) s = Inr (v, r)"
    unfolding JSON_parse_def
    by (cases "parseValue (2 * length s + 1) s") (auto split: if_splits simp del: parseValue.simps)
  then show ?thesis
    using parse_wf_all [of "2 * length s + 1"] by blast
qed

subsection \<open>One record\<close>

lemma listed_shape:
  assumes "\<not> unlisted tm r"
  obtains kvs s info where "r = JObj kvs" and "map_of kvs ''name'' = Some (JStr s)"
    and "tm s = Some info"
proof -
  from assms obtain n where n: "getProp r ''name'' = Inr n" and h: "hasKey tm n"
    by (auto simp: unlisted_def split: sum.splits)
  from h obtain s where s: "n = Some (JStr s)" and tm: "tm s \<noteq> None"
    by (auto simp: hasKey_def split: option.splits json.splits)
  from n s obtain kvs where "r = JObj kvs" and "map_of kvs ''name'' = Some (JStr s)"
    by (cases r) (auto simp: getProp_def)
  with tm that show ?thesis by blast
qed

definition annotatedFields :: "tierInfo \<Rightarrow> (string \<times> json) list \<Rightarrow> (string \<times> json) list" where
  "annotatedFields info kvs =
     AList.update ''claude_comment'' (JStr (claude_comment info))
       (AList.update ''tier'' (tierJson (tier info)) kvs)"

lemma annotateRule_listed:
  assumes "map_of kvs ''name'' = Some (JStr s)" and "tm s = Some info"
  shows "annotateRule tm (JObj kvs) = Inr (JObj (annotatedFields info kvs))"
  using assms by (simp add: annotateRule_def getProp_def setProp_def annotatedFields_def)

lemma annotatedFields_name:
  "map_of (annotatedFields info kvs) ''name'' = map_of kvs ''name''"
  by (simp add: annotatedFields_def update_conv')

lemma annotatedFields_idem:
  "annotatedFields info (annotatedFields info kvs) = annotatedFields info kvs"
proof -
  let ?a = "annotatedFields info kvs"
  have t: "map_of ?a ''tier'' = Some (tierJson (tier info))"
    and c: "map_of ?a ''claude_comment'' = Some (JStr (claude_comment info))"
    by (simp_all add: annotatedFields_def update_conv')
  have "AList.update ''tier'' (tierJson (tier info)) ?a = ?a"
    using t by (rule update_triv)
  moreover have "AList.update ''claude_comment'' (JStr (claude_comment info)) ?a = ?a"
    using c by (rule update_triv)
  ultimately show ?thesis
    by (simp add: annotatedFields_def)
qed

lemma filter_update_other:
  "\<not> P k \<Longrightarrow> filter (\<lambda>m. P (fst m)) (AList.update k v al) = filter (\<lambda>m. P (fst m)) al"
  by (induction al) auto

lemma annotatedFields_frame:
  "spec_sameButTier (JObj kvs) (JObj (annotatedFields info kvs))"
  unfolding spec_sameButTier_def otherFields_def annotatedFields_def
  by (simp add: filter_update_other [where P = "\<lambda>k. k \<noteq> ''tier'' \<and> k \<noteq> ''claude_comment''"])

lemma tierJson_wf: "wfJson (tierJson t)"
  by (cases t) simp_all

lemma update_wf:
  assumes "wfJson (JObj kvs)" and "wfJson x" and "\<not> isArrayIndex k"
  shows "wfJson (JObj (AList.update k x kvs))"
proof -
  have "set (AList.update k x kvs) \<subseteq> insert (k, x) (set kvs)"
    by (rule update_set)
  with assms show ?thesis
    by (auto simp: list_all_iff distinct_update)
qed

lemma annotatedFields_wf:
  assumes "wfJson (JObj kvs)"
  shows "wfJson (JObj (annotatedFields info kvs))"
  unfolding annotatedFields_def
  by (intro update_wf assms tierJson_wf) (simp_all add: isArrayIndex_def isDecDigit_def)

subsection \<open>A run\<close>

text \<open>The outcome of the loop for one record and its annotated form.\<close>

definition annotates :: "(string \<rightharpoonup> tierInfo) \<Rightarrow> json \<Rightarrow> json \<Rightarrow> bool" where
  "annotates tm r r' \<longleftrightarrow>
     (\<exists>kvs s info. r = JObj kvs \<and> map_of kvs ''name'' = Some (JStr s) \<and> tm s = Some info \<and>
        r' = JObj (annotatedFields info kvs))"

lemma ruleNames_listed:
  assumes "\<forall>r\<in>set rules. \<not> unlisted tm r"
  shows "\<exists>names. ruleNames rules = Inr names \<and> filter (\<lambda>n. \<not> hasKey tm n) names = []"
  using assms
proof (induction rules)
  case Nil
  show ?case by simp
next
  case (Cons r rules)
  then obtain names where "ruleNames rules = Inr names"
    "filter (\<lambda>n. \<not> hasKey tm n) names = []"
    by auto
  moreover from Cons.prems obtain n where "getProp r ''name'' = Inr n" "hasKey tm n"
    by (auto simp: unlisted_def split: sum.splits)
  ultimately show ?case by simp
qed

lemma ruleNames_unlisted:
  assumes "\<exists>r\<in>set rules. unlisted tm r"
  shows "ruleNames rules = Inl TypeError
    \<or> (\<exists>names. ruleNames rules = Inr names \<and> filter (\<lambda>n. \<not> hasKey tm n) names \<noteq> [])"
  using assms
proof (induction rules)
  case Nil
  then show ?case by simp
next
  case (Cons r rules)
  show ?case
  proof (cases "getProp r ''name''")
    case (Inl e)
    then show ?thesis by (cases e) simp
  next
    case (Inr n)
    note n = Inr
    show ?thesis
    proof (cases "ruleNames rules")
      case (Inl e)
      with n show ?thesis by (cases e) simp
    next
      case (Inr names)
      show ?thesis
      proof (cases "unlisted tm r")
        case True
        with n Inr show ?thesis by (simp add: unlisted_def)
      next
        case False
        with Cons.prems have "\<exists>r\<in>set rules. unlisted tm r" by simp
        with Cons.IH Inr n show ?thesis by auto
      qed
    qed
  qed
qed

lemma annotateAll_listed:
  assumes "\<forall>r\<in>set rules. \<not> unlisted tm r"
  shows "\<exists>rules'. annotateAll tm rules = Inr rules' \<and> list_all2 (annotates tm) rules rules'"
  using assms
proof (induction rules)
  case Nil
  show ?case by simp
next
  case (Cons r rules)
  then obtain rules' where rs: "annotateAll tm rules = Inr rules'"
    "list_all2 (annotates tm) rules rules'"
    by auto
  from Cons.prems have "\<not> unlisted tm r" by simp
  then obtain kvs s info where r: "r = JObj kvs" "map_of kvs ''name'' = Some (JStr s)"
    "tm s = Some info"
    by (rule listed_shape)
  then have "annotateRule tm r = Inr (JObj (annotatedFields info kvs))"
    and "annotates tm r (JObj (annotatedFields info kvs))"
    by (auto simp: annotateRule_listed annotates_def)
  with rs show ?case by simp
qed

lemma annotatorMain_listed:
  assumes "JSON_parse (moduleJson raw) = Inr (JArr rules)"
    and "\<forall>r\<in>set rules. \<not> unlisted tm r"
  shows "\<exists>rules'. list_all2 (annotates tm) rules rules' \<and>
     annotatorMain tm raw = Exit 0 (wrapModule (JSON_stringify (JArr rules')))"
proof -
  obtain names where "ruleNames rules = Inr names" "filter (\<lambda>n. \<not> hasKey tm n) names = []"
    using ruleNames_listed [OF assms(2)] by blast
  moreover obtain rules' where "annotateAll tm rules = Inr rules'"
    "list_all2 (annotates tm) rules rules'"
    using annotateAll_listed [OF assms(2)] by blast
  ultimately show ?thesis
    using assms(1) by (auto simp: annotatorMain_def)
qed

lemma annotatorMain_unlisted:
  assumes "JSON_parse (moduleJson raw) = Inr (JArr rules)"
    and "\<exists>r\<in>set rules. unlisted tm r"
  shows "annotatorMain tm raw = Exit 1 raw"
  using ruleNames_unlisted [OF assms(2)] assms(1)
  by (auto simp: annotatorMain_def)


lemma annotates_props:
  assumes "annotates tm r r'"
  shows "\<not> unlisted tm r'" and "annotates tm r' r'" and "spec_sameButTier r r'"
    and "wfJson r \<Longrightarrow> wfJson r'"
proof -
  from assms obtain kvs s info where r: "r = JObj kvs" "map_of kvs ''name'' = Some (JStr s)"
    "tm s = Some info" "r' = JObj (annotatedFields info kvs)"
    unfolding annotates_def by blast
  have n: "map_of (annotatedFields info kvs) ''name'' = Some (JStr s)"
    using r(2) by (simp add: annotatedFields_name)
  show "\<not> unlisted tm r'"
    using n r(3) by (simp add: unlisted_def r(4) getProp_def hasKey_def)
  show "annotates tm r' r'"
    unfolding annotates_def r(4)
    by (intro exI [of _ "annotatedFields info kvs"] exI [of _ s] exI [of _ info])
       (simp add: n r(3) annotatedFields_idem)
  show "spec_sameButTier r r'"
    unfolding r(1,4) by (rule annotatedFields_frame)
  show "wfJson r'" if "wfJson r"
    using that unfolding r(1,4) by (rule annotatedFields_wf)
qed

lemma annotates_all:
  assumes "list_all2 (annotates tm) rules rules'"
  shows "\<forall>r\<in>set rules'. \<not> unlisted tm r" and "list_all2 (annotates tm) rules' rules'"
    and "list_all2 spec_sameButTier rules rules'"
    and "list_all wfJson rules \<Longrightarrow> list_all wfJson rules'"
  using assms
  by (induction rules rules' rule: list_all2_induct) (auto dest: annotates_props)

lemma annotates_unique:
  "annotates tm r a \<Longrightarrow> annotates tm r b \<Longrightarrow> a = b"
  unfolding annotates_def by auto

lemma annotates_all_unique:
  assumes "list_all2 (annotates tm) rules a" and "list_all2 (annotates tm) rules b"
  shows "a = b"
  using assms
proof (induction rules a arbitrary: b rule: list_all2_induct)
  case Nil
  then show ?case by simp
next
  case (Cons r rs x xs)
  from Cons.prems obtain y ys where b: "b = y # ys" "annotates tm r y"
    "list_all2 (annotates tm) rs ys"
    by (cases b) auto
  with Cons show ?case
    by (auto dest: annotates_unique)
qed

lemma annotated_reads_back:
  assumes "JSON_parse (moduleJson raw) = Inr (JArr rules)"
    and "list_all2 (annotates tm) rules rules'"
  shows "JSON_parse (moduleJson (wrapModule (JSON_stringify (JArr rules')))) = Inr (JArr rules')"
proof -
  have "wfJson (JArr rules)" using assms(1) by (rule JSON_parse_wf)
  then have "wfJson (JArr rules')"
    using annotates_all(4) [OF assms(2)] by simp
  then show ?thesis
    unfolding moduleJson_wrapModule by (rule JSON_parse_stringify)
qed

text \<open>
  C3: when the file parses to an array in which some record's name has no entry in
  the table (or no name can be read from it), the run ends with status 1 and the file
  holds what it held before: nothing is written.
\<close>

theorem annotator_fails_on_unlisted:
  assumes "JSON_parse (moduleJson raw) = Inr (JArr rules)"
    and "\<exists>r\<in>set rules. unlisted tm r"
  shows "annotatorMain tm raw = Exit 1 raw"
  using assms by (rule annotatorMain_unlisted)

theorem annotator_fails_on_unlisted_witness:
  \<open>annotatorMain [''Foo'' \<mapsto> \<lparr> tier = TierNumber 1, claude_comment = ''c'' \<rparr>]
      (''const RULES_DATA ='' @ [nl] @ ''[{"name": "Foo"}, {"name": "Bar"}];'' @ [nl])
    = Exit 1 (''const RULES_DATA ='' @ [nl] @ ''[{"name": "Foo"}, {"name": "Bar"}];'' @ [nl])\<close>
proof -
  have p: \<open>JSON_parse (moduleJson
      (''const RULES_DATA ='' @ [nl] @ ''[{"name": "Foo"}, {"name": "Bar"}];'' @ [nl]))
    = Inr (JArr [JObj [(''name'', JStr ''Foo'')], JObj [(''name'', JStr ''Bar'')]])\<close>
    by code_simp
  have u: "\<exists>r\<in>set [JObj [(''name'', JStr ''Foo'')], JObj [(''name'', JStr ''Bar'')]].
      unlisted [''Foo'' \<mapsto> \<lparr> tier = TierNumber 1, claude_comment = ''c'' \<rparr>] r"
    by (simp add: unlisted_def getProp_def hasKey_def)
  from annotator_fails_on_unlisted [OF p u] show ?thesis .
qed

text \<open>
  C5: when the file parses to an array whose records all have a name with an entry in
  the table, the run succeeds, and a second run on the file it wrote succeeds and
  writes the same text again.
\<close>

theorem annotator_idempotent:
  assumes "JSON_parse (moduleJson raw) = Inr (JArr rules)"
    and "\<forall>r\<in>set rules. \<not> unlisted tm r"
  shows "\<exists>out. annotatorMain tm raw = Exit 0 out \<and> annotatorMain tm out = Exit 0 out"
proof -
  obtain rules' where a: "list_all2 (annotates tm) rules rules'"
    and run: "annotatorMain tm raw = Exit 0 (wrapModule (JSON_stringify (JArr rules')))"
    using annotatorMain_listed [OF assms] by blast
  let ?out = "wrapModule (JSON_stringify (JArr rules'))"
  have again: "JSON_parse (moduleJson ?out) = Inr (JArr rules')"
    using assms(1) a by (rule annotated_reads_back)
  obtain rules2 where a2: "list_all2 (annotates tm) rules' rules2"
    and run2: "annotatorMain tm ?out = Exit 0 (wrapModule (JSON_stringify (JArr rules2)))"
    using annotatorMain_listed [OF again annotates_all(1) [OF a]] by blast
  have "rules2 = rules'"
    using a2 annotates_all(2) [OF a] by (rule annotates_all_unique)
  with run run2 show ?thesis by simp
qed

theorem annotator_idempotent_witness:
  \<open>\<exists>out. annotatorMain [''Foo'' \<mapsto> \<lparr> tier = TierString ''skip'', claude_comment = ''c'' \<rparr>]
        (''const RULES_DATA ='' @ [nl] @ ''[{"name": "Foo", "priority": 3}];'' @ [nl])
      = Exit 0 out
    \<and> annotatorMain [''Foo'' \<mapsto> \<lparr> tier = TierString ''skip'', claude_comment = ''c'' \<rparr>] out
      = Exit 0 out\<close>
proof -
  have p: \<open>JSON_parse (moduleJson
      (''const RULES_DATA ='' @ [nl] @ ''[{"name": "Foo", "priority": 3}];'' @ [nl]))
    = Inr (JArr [JObj [(''name'', JStr ''Foo''), (''priority'', JNum 3)]])\<close>
    by code_simp
  have l: "\<forall>r\<in>set [JObj [(''name'', JStr ''Foo''), (''priority'', JNum 3)]].
      \<not> unlisted [''Foo'' \<mapsto> \<lparr> tier = TierString ''skip'', claude_comment = ''c'' \<rparr>] r"
    by (simp add: unlisted_def getProp_def hasKey_def)
  from annotator_idempotent [OF p l] show ?thesis .
qed



end
